(* ===== verification/Prelude.thy ===== *)
theory Prelude
  imports Main "HOL-Library.Word" "HOL-Library.AList" "HOL-Library.Multiset"
    "HOL-Library.List_Lexorder" "HOL-Library.Char_ord"
begin

text \<open>
  What every other theory of the development shares: names for the machine
  types of the Rust sources, the model of the standard library's hash maps, the
  big-endian byte encodings and decimal rendering of integers, the saturating
  addition, and a generic invariant rule for step relations.

  \<^item> \<open>u8\<close>, \<open>u32\<close>, \<open>u64\<close> and \<open>u256\<close> are machine words, so addition wraps
    and comparison is unsigned, as in a release build of the sources; lengths
    and counts (\<open>usize\<close>) are natural numbers.
  \<^item> A \<open>HashMap\<close> or \<open>BTreeMap\<close> is an association list with distinct keys
    (\<open>hm_wf\<close>).  The list order is the iteration order.  The order of a hash
    map is arbitrary, and the theorems quantify over all such lists.
  \<^item> A fallible operation returns \<open>('e, 'a) result\<close>: \<open>Inl\<close> carries the error,
    \<open>Inr\<close> the value.
\<close>

section \<open>Machine types\<close>

type_synonym u8 = "8 word"
type_synonym u32 = "32 word"
type_synonym u64 = "64 word"
type_synonym u256 = "256 word"
type_synonym address = "160 word"
type_synonym bytes = "u8 list"
type_synonym ('e, 'a) result = "'e + 'a"
type_synonym ('k, 'v) hmap = "('k \<times> 'v) list"

named_theorems hm_simps \<open>rewrite rules for hash-map operations\<close>

section \<open>Hash maps\<close>

abbreviation hm_get :: "('k, 'v) hmap \<Rightarrow> 'k \<Rightarrow> 'v option" where
  "hm_get \<equiv> map_of"

abbreviation hm_insert :: "'k \<Rightarrow> 'v \<Rightarrow> ('k, 'v) hmap \<Rightarrow> ('k, 'v) hmap" where
  "hm_insert \<equiv> AList.update"

abbreviation hm_remove :: "'k \<Rightarrow> ('k, 'v) hmap \<Rightarrow> ('k, 'v) hmap" where
  "hm_remove \<equiv> AList.delete"

definition hm_retain :: "('k \<Rightarrow> 'v \<Rightarrow> bool) \<Rightarrow> ('k, 'v) hmap \<Rightarrow> ('k, 'v) hmap" where
  "hm_retain P m = filter (\<lambda>(k, v). P k v) m"

definition hm_map :: "('k \<Rightarrow> 'v \<Rightarrow> 'v) \<Rightarrow> ('k, 'v) hmap \<Rightarrow> ('k, 'v) hmap" where
  "hm_map f m = map (\<lambda>(k, v). (k, f k v)) m"

definition hm_contains :: "('k, 'v) hmap \<Rightarrow> 'k \<Rightarrow> bool" where
  "hm_contains m k = (case map_of m k of None \<Rightarrow> False | Some _ \<Rightarrow> True)"

abbreviation hm_keys :: "('k, 'v) hmap \<Rightarrow> 'k list" where
  "hm_keys m \<equiv> map fst m"

abbreviation hm_values :: "('k, 'v) hmap \<Rightarrow> 'v list" where
  "hm_values m \<equiv> map snd m"

definition hm_wf :: "('k, 'v) hmap \<Rightarrow> bool" where
  "hm_wf m \<longleftrightarrow> distinct (map fst m)"

lemma wf_empty [simp]: "hm_wf []"
  by (simp add: hm_wf_def)

lemma wf_Cons [simp]: "hm_wf ((k, v) # m) \<longleftrightarrow> map_of m k = None \<and> hm_wf m"
  by (auto simp: hm_wf_def map_of_eq_None_iff)

lemma wf_map_of: "hm_wf m \<Longrightarrow> (k, v) \<in> set m \<longleftrightarrow> map_of m k = Some v"
  by (simp add: hm_wf_def)

lemma hm_contains_iff [hm_simps]: "hm_contains m k \<longleftrightarrow> map_of m k \<noteq> None"
  by (auto simp: hm_contains_def split: option.splits)

lemma hm_contains_keys: "hm_contains m k \<longleftrightarrow> k \<in> set (hm_keys m)"
  by (simp add: hm_contains_iff map_of_eq_None_iff image_iff)

lemma map_of_retain [hm_simps]:
  assumes "hm_wf m"
  shows "map_of (hm_retain P m) k =
    (case map_of m k of None \<Rightarrow> None | Some v \<Rightarrow> if P k v then Some v else None)"
  using assms
proof (induction m)
  case Nil
  then show ?case by (simp add: hm_retain_def)
next
  case (Cons p m)
  then show ?case
    by (cases p) (auto simp: hm_retain_def hm_wf_def map_of_eq_None_iff rev_image_eqI split: option.splits)
qed

lemma wf_retain [simp]: "hm_wf m \<Longrightarrow> hm_wf (hm_retain P m)"
  unfolding hm_retain_def hm_wf_def by (induction m) (auto simp: image_iff)

lemma wf_hm_map [simp]: "hm_wf (hm_map f m) \<longleftrightarrow> hm_wf m"
  by (simp add: hm_wf_def hm_map_def comp_def case_prod_unfold)

lemma length_retain: "length (hm_retain P m) \<le> length m"
  by (simp add: hm_retain_def)

lemma map_of_hm_map [hm_simps]: "map_of (hm_map f m) k = map_option (f k) (map_of m k)"
  by (induction m) (auto simp: hm_map_def)

lemma keys_hm_map [simp]: "map fst (hm_map f m) = map fst m"
  by (induction m) (auto simp: hm_map_def)

lemma length_hm_map [simp]: "length (hm_map f m) = length m"
  by (simp add: hm_map_def)

lemma wf_insert [simp]: "hm_wf m \<Longrightarrow> hm_wf (hm_insert k v m)"
  by (simp add: hm_wf_def distinct_update)

lemma wf_remove [simp]: "hm_wf m \<Longrightarrow> hm_wf (hm_remove k m)"
  by (simp add: hm_wf_def distinct_delete)

lemmas map_of_insert [hm_simps] = update_conv'
lemmas map_of_remove [hm_simps] = delete_conv'

lemma length_insert:
  "length (hm_insert k v m) = (if hm_contains m k then length m else Suc (length m))"
  by (induction m) (auto simp: hm_contains_iff)

lemma length_remove: "length (hm_remove k m) \<le> length m"
  by (simp add: AList.delete_eq)

lemma insert_eq_map:
  assumes "hm_wf m" "map_of m k = Some v"
  shows "hm_insert k w m = map (\<lambda>(k', v'). if k' = k then (k', w) else (k', v')) m"
  using assms
proof (induction m)
  case Nil
  then show ?case by simp
next
  case (Cons p m)
  show ?case
  proof (cases "fst p = k")
    case True
    then have "k \<notin> fst ` set m" using Cons.prems by (auto simp: hm_wf_def)
    then have "map (\<lambda>(k', v'). if k' = k then (k', w) else (k', v')) m = m"
      by (intro map_idI) (force split: prod.splits)
    then show ?thesis using True by (cases p) simp
  next
    case False
    then show ?thesis using Cons by (cases p) (auto simp: hm_wf_def)
  qed
qed

text \<open>The contract the components rely on for the standard library's maps.\<close>

locale hash_map =
  fixes wf :: "'m \<Rightarrow> bool"
    and get :: "'m \<Rightarrow> 'k \<Rightarrow> 'v option"
    and ins :: "'k \<Rightarrow> 'v \<Rightarrow> 'm \<Rightarrow> 'm"
    and rem :: "'k \<Rightarrow> 'm \<Rightarrow> 'm"
    and ret :: "('k \<Rightarrow> 'v \<Rightarrow> bool) \<Rightarrow> 'm \<Rightarrow> 'm"
  assumes get_ins: "get (ins k v m) k' = (if k' = k then Some v else get m k')"
    and get_rem: "get (rem k m) k' = (if k' = k then None else get m k')"
    and get_ret: "wf m \<Longrightarrow> get (ret P m) k =
      (case get m k of None \<Rightarrow> None | Some v \<Rightarrow> if P k v then Some v else None)"
    and wf_ins: "wf m \<Longrightarrow> wf (ins k v m)"
    and wf_rem: "wf m \<Longrightarrow> wf (rem k m)"
    and wf_ret: "wf m \<Longrightarrow> wf (ret P m)"
begin

lemma rem_ins_fresh: "get m k = None \<Longrightarrow> get (rem k (ins k v m)) k' = get m k'"
  by (simp add: get_ins get_rem)

lemma ret_subset: "wf m \<Longrightarrow> get (ret P m) k = Some v \<Longrightarrow> get m k = Some v \<and> P k v"
  by (auto simp: get_ret split: option.splits if_splits)

lemma ret_keeps: "wf m \<Longrightarrow> get m k = Some v \<Longrightarrow> P k v \<Longrightarrow> get (ret P m) k = Some v"
  by (simp add: get_ret)

end

interpretation hm: hash_map hm_wf map_of AList.update AList.delete hm_retain
  by unfold_locales (auto simp: hm_simps)

section \<open>Integers\<close>

lemma unat_bound: "unat (w :: 'a :: len word) < 2 ^ LENGTH('a)"
  by (rule unsigned_less)

definition sat_add :: "u64 \<Rightarrow> u64 \<Rightarrow> u64" where
  "sat_add a b = (if a \<le> a + b then a + b else - 1)"

lemma sat_add_unat: "unat (sat_add a b) = min (unat a + unat b) (2 ^ 64 - 1)"
proof (cases "unat a + unat b < 2 ^ 64")
  case True
  then have "unat (a + b) = unat a + unat b" by (simp add: unat_word_ariths)
  then show ?thesis using True by (auto simp: sat_add_def word_le_nat_alt)
next
  case False
  have "unat a < 2 ^ 64" "unat b < 2 ^ 64" using unat_bound[of a] unat_bound[of b] by simp_all
  with False have "unat (a + b) = unat a + unat b - 2 ^ 64"
    by (simp add: unat_word_ariths mod_if)
  then have "\<not> a \<le> a + b"
    using \<open>unat b < 2 ^ 64\<close> \<open>unat a < 2 ^ 64\<close> False by (simp add: word_le_nat_alt)
  then show ?thesis using False by (simp add: sat_add_def unsigned_minus_1_eq_mask mask_eq_exp_minus_1)
qed

lemma sat_add_ge: "a \<le> sat_add a b"
  using unat_bound[of a] by (simp add: word_le_nat_alt sat_add_unat)

definition u64_range :: "u64 \<Rightarrow> u64 \<Rightarrow> u64 list" where
  "u64_range a b = map word_of_nat [unat a..<unat b]"

lemma set_u64_range [simp]: "set (u64_range a b) = {a..<b}"
proof -
  have "x \<in> word_of_nat ` {unat a..<unat b}" if "a \<le> x" "x < b" for x
    using that by (intro image_eqI[of _ _ "unat x"]) (auto simp: word_le_nat_alt word_less_nat_alt)
  moreover have "a \<le> word_of_nat n \<and> word_of_nat n < b" if "unat a \<le> n" "n < unat b" for n
  proof -
    have "n < 2 ^ 64" using that unat_bound[of b] by simp
    then have "unat (word_of_nat n :: u64) = n" by (simp add: unat_of_nat)
    then show ?thesis using that by (simp add: word_le_nat_alt word_less_nat_alt)
  qed
  ultimately show ?thesis by (auto simp: u64_range_def)
qed

text \<open>Big-endian bytes of a natural number (\<open>to_be_bytes\<close>, \<open>put_u32\<close>) and back.\<close>

primrec be_bytes :: "nat \<Rightarrow> nat \<Rightarrow> bytes" where
  "be_bytes 0 x = []"
| "be_bytes (Suc n) x = be_bytes n (x div 256) @ [word_of_nat x]"

definition be_val :: "bytes \<Rightarrow> nat" where
  "be_val bs = foldl (\<lambda>a b. a * 256 + unat b) 0 bs"

lemma length_be_bytes [simp]: "length (be_bytes n x) = n"
  by (induction n arbitrary: x) auto

lemma be_val_snoc: "be_val (bs @ [b]) = be_val bs * 256 + unat b"
  by (simp add: be_val_def)

lemma be_val_be_bytes: "be_val (be_bytes n x) = x mod 256 ^ n"
proof (induction n arbitrary: x)
  case 0
  then show ?case by (simp add: be_val_def)
next
  case (Suc n)
  have "unat (word_of_nat x :: u8) = x mod 256" by (simp add: unat_of_nat)
  then have "be_val (be_bytes (Suc n) x) = (x div 256 mod 256 ^ n) * 256 + x mod 256"
    by (simp add: be_val_snoc Suc.IH)
  also have "\<dots> = x mod (256 * 256 ^ n)"
    by (simp add: mod_mult2_eq mult.commute)
  finally show ?case by simp
qed

lemma be_val_less: "be_val bs < 256 ^ length bs"
proof (induction bs rule: rev_induct)
  case Nil
  then show ?case by (simp add: be_val_def)
next
  case (snoc b bs)
  have "unat b < 256" using unat_bound[of b] by simp
  moreover have "be_val bs + 1 \<le> 256 ^ length bs" using snoc by simp
  then have "(be_val bs + 1) * 256 \<le> 256 ^ length bs * 256" by (rule mult_le_mono1)
  ultimately show ?case by (simp add: be_val_snoc)
qed

lemma be_bytes_be_val: "be_bytes (length bs) (be_val bs) = bs"
proof (induction bs rule: rev_induct)
  case Nil
  then show ?case by simp
next
  case (snoc b bs)
  have "unat b < 256" using unat_bound[of b] by simp
  then have "(be_val bs * 256 + unat b) div 256 = be_val bs" by simp
  moreover have "(word_of_nat (be_val bs * 256 + unat b) :: u8) = b"
  proof -
    have "take_bit 8 (be_val bs * 256 + unat b) = take_bit 8 (unat b)"
      by (simp add: take_bit_eq_mod)
    then have "(word_of_nat (be_val bs * 256 + unat b) :: u8) = word_of_nat (unat b)"
      by (subst word_of_nat_eq_iff) simp
    then show ?thesis by simp
  qed
  ultimately show ?case using snoc by (simp add: be_val_snoc del: of_nat_add of_nat_mult)
qed

lemma be_val_inj: "length xs = length ys \<Longrightarrow> be_val xs = be_val ys \<Longrightarrow> xs = ys"
  by (metis be_bytes_be_val)

text \<open>Decimal rendering, \<open>Display\<close> of the unsigned integers.\<close>

fun show_nat :: "nat \<Rightarrow> string" where
  "show_nat n = (if n < 10 then [char_of (48 + n)] else show_nat (n div 10) @ [char_of (48 + n mod 10)])"

declare show_nat.simps [simp del]

definition show_u64 :: "u64 \<Rightarrow> string" where
  "show_u64 w = show_nat (unat w)"

lemma of_char_digit: "n < 10 \<Longrightarrow> of_char (char_of (48 + n) :: char) = 48 + (n :: nat)"
  by (simp add: of_char_of)

lemma show_nat_not_nil [simp]: "show_nat n \<noteq> []" "[] \<noteq> show_nat n"
  by (subst show_nat.simps, simp)+

lemma show_nat_digits: "c \<in> set (show_nat n) \<Longrightarrow> of_char c \<in> {48..57 :: nat}"
proof (induction n rule: show_nat.induct)
  case (1 n)
  have digit: "of_char (char_of (48 + d) :: char) \<in> {48..57 :: nat}" if "d < 10" for d :: nat
    using that of_char_digit[OF that] by simp
  show ?case
  proof (cases "n < 10")
    case True
    then show ?thesis using 1 digit[of n] by (simp add: show_nat.simps[of n])
  next
    case False
    then have "c \<in> set (show_nat (n div 10)) \<or> c = char_of (48 + n mod 10)"
      using "1.prems" by (auto simp: show_nat.simps[of n])
    then show ?thesis using "1.IH"[OF False] digit[of "n mod 10"] by auto
  qed
qed

lemma char_of_digit_inject:
  "a < 10 \<Longrightarrow> b < 10 \<Longrightarrow> (char_of (48 + a) :: char) = char_of (48 + b) \<Longrightarrow> a = (b :: nat)"
  by (metis add_left_cancel of_char_digit)

lemma show_nat_inject [simp]: "show_nat m = show_nat n \<longleftrightarrow> m = n"
proof
  show "show_nat m = show_nat n \<Longrightarrow> m = n"
  proof (induction m arbitrary: n rule: show_nat.induct)
    case (1 m)
    consider "m < 10" "n < 10" | "m < 10" "\<not> n < 10" | "\<not> m < 10" "n < 10"
      | "\<not> m < 10" "\<not> n < 10" by blast
    then show ?case
    proof cases
      case 1
      then show ?thesis using \<open>show_nat m = show_nat n\<close> char_of_digit_inject
        by (simp add: show_nat.simps[of m] show_nat.simps[of n])
    next
      case 2
      then show ?thesis using \<open>show_nat m = show_nat n\<close>
        by (auto simp: show_nat.simps[of m] show_nat.simps[of n])
    next
      case 3
      then show ?thesis using \<open>show_nat m = show_nat n\<close>
        by (simp add: show_nat.simps[of m] show_nat.simps[of n])
    next
      case 4
      then have "show_nat (m div 10) = show_nat (n div 10)"
        and "(char_of (48 + m mod 10) :: char) = char_of (48 + n mod 10)"
        using \<open>show_nat m = show_nat n\<close>
        by (simp_all add: show_nat.simps[of m] show_nat.simps[of n])
      then have "m div 10 = n div 10" and "m mod 10 = n mod 10"
        using "1.IH" 4 char_of_digit_inject[of "m mod 10" "n mod 10"] by auto
      then show ?thesis by (metis div_mult_mod_eq)
    qed
  qed
qed simp

lemma show_u64_inject [simp]: "show_u64 a = show_u64 b \<longleftrightarrow> a = b"
  by (simp add: show_u64_def word_unat_eq_iff)

text \<open>\<open>str::as_bytes\<close>: a string is the list of its UTF-8 bytes.\<close>

definition as_bytes :: "string \<Rightarrow> bytes" where
  "as_bytes s = map (\<lambda>c. word_of_nat (of_char c)) s"

lemma byte_of_char_inject: "(word_of_nat (of_char c) :: u8) = word_of_nat (of_char d) \<Longrightarrow> c = (d :: char)"
proof -
  assume "(word_of_nat (of_char c) :: u8) = word_of_nat (of_char d)"
  then have "of_char c mod (256 :: nat) = of_char d mod 256"
    by (simp add: word_of_nat_eq_iff take_bit_eq_mod)
  then show "c = d"
    using of_char_eq_iff by (metis char_of_mod_256 char_of_char)
qed

lemma as_bytes_inject [simp]: "as_bytes s = as_bytes t \<longleftrightarrow> s = t"
  unfolding as_bytes_def
  by (rule inj_map_eq_map) (auto intro!: injI dest: byte_of_char_inject)

section \<open>Lists\<close>

lemma foldr_max_ge: "x \<in> set xs \<Longrightarrow> (x :: 'a :: linorder) \<le> foldr max xs a"
  by (induction xs) (auto simp: le_max_iff_disj)

lemma foldr_max_base: "(a :: 'a :: linorder) \<le> foldr max xs a"
  by (induction xs) (auto simp: le_max_iff_disj)

lemma foldr_max_in: "foldr max xs (a :: 'a :: linorder) = a \<or> foldr max xs a \<in> set xs"
  by (induction xs) (auto simp: max_def)

section \<open>Invariants of step relations\<close>

inductive reach :: "('s \<Rightarrow> bool) \<Rightarrow> ('s \<Rightarrow> 's \<Rightarrow> bool) \<Rightarrow> 's \<Rightarrow> bool"
  for init :: "'s \<Rightarrow> bool" and step :: "'s \<Rightarrow> 's \<Rightarrow> bool" where
  reach_init: "init s \<Longrightarrow> reach init step s"
| reach_step: "reach init step s \<Longrightarrow> step s t \<Longrightarrow> reach init step t"

lemma reach_start: "reach ((=) s) step s"
  by (simp add: reach_init)

locale step_invariant =
  fixes init :: "'s \<Rightarrow> bool"
    and step :: "'s \<Rightarrow> 's \<Rightarrow> bool"
    and inv :: "'s \<Rightarrow> bool"
  assumes inv_init: "init s \<Longrightarrow> inv s"
    and inv_step: "inv s \<Longrightarrow> step s t \<Longrightarrow> inv t"
begin

lemma reach_inv: "reach init step s \<Longrightarrow> inv s"
  by (induction rule: reach.induct) (auto intro: inv_init inv_step)

end

end
