(* ===== verification/Primitives.thy ===== *)
theory Primitives
  imports Prelude
begin

text \<open>
  The shared vocabulary of the crates: \<open>primitives/src/lib.rs\<close> (identifiers,
  XT status, dependencies, messages, simulation results) and the error types of
  \<open>primitives-traits/src/error.rs\<close> and \<open>mailbox/src/error.rs\<close>.

  Functions of crates outside the repository are the fields of the record
  \<open>externals\<close>, an argument of every definition that uses one of them.  A 32-byte
  hash is the 256-bit word its bytes denote in big-endian order, an address the
  160-bit word.
\<close>

section \<open>Functions from outside the repository\<close>

record externals =
  hex_encode :: "bytes \<Rightarrow> string"
  hex_decode :: "string \<Rightarrow> bytes option"
  sha256 :: "bytes \<Rightarrow> bytes"
  keccak256 :: "bytes \<Rightarrow> u256"
  show_chain_id :: "u64 \<Rightarrow> string"
  show_period_id :: "u64 \<Rightarrow> string"
  show_sequence :: "u64 \<Rightarrow> string"

text \<open>
  What the code relies on: hexadecimal text decodes to the bytes it encodes and
  uses hexadecimal digits only; chain ids are rendered in decimal.
\<close>

definition hex_digits :: "char set" where
  "hex_digits = set ''0123456789abcdef''"

definition hex_spec :: "externals \<Rightarrow> bool" where
  "hex_spec X \<longleftrightarrow> (\<forall>b. hex_decode X (hex_encode X b) = Some b \<and> set (hex_encode X b) \<subseteq> hex_digits)"

definition chain_display_spec :: "externals \<Rightarrow> bool" where
  "chain_display_spec X \<longleftrightarrow> (\<forall>c. show_chain_id X c = show_u64 c)"

section \<open>Identifiers\<close>

type_synonym instance_id = string

definition xt_id_from_bytes :: "bytes \<Rightarrow> u256" where
  "xt_id_from_bytes bs = word_of_nat (be_val (take 32 bs @ replicate (32 - length bs) 0))"

definition xt_id_from_data :: "externals \<Rightarrow> bytes \<Rightarrow> u256" where
  "xt_id_from_data X d = word_of_nat (be_val (sha256 X d))"

definition xt_id_as_bytes :: "u256 \<Rightarrow> bytes" where
  "xt_id_as_bytes h = be_bytes 32 (unat h)"

definition xt_id_to_hex :: "externals \<Rightarrow> u256 \<Rightarrow> string" where
  "xt_id_to_hex X h = hex_encode X (xt_id_as_bytes h)"

definition standalone :: "externals \<Rightarrow> u64 \<Rightarrow> u64 \<Rightarrow> instance_id" where
  "standalone X chain sq = ''xt-'' @ show_chain_id X chain @ ''-'' @ show_u64 sq"

definition from_publisher_bytes :: "externals \<Rightarrow> bytes \<Rightarrow> instance_id" where
  "from_publisher_bytes X bs = hex_encode X bs"

section \<open>Status, dependencies, messages\<close>

datatype xt_status = Pending | Simulating | WaitingCirc | Simulated | Voted | Committed | Aborted

fun show_xt_status :: "xt_status \<Rightarrow> string" where
  "show_xt_status Pending = ''pending''"
| "show_xt_status Simulating = ''simulating''"
| "show_xt_status WaitingCirc = ''waiting_circ''"
| "show_xt_status Simulated = ''simulated''"
| "show_xt_status Voted = ''voted''"
| "show_xt_status Committed = ''committed''"
| "show_xt_status Aborted = ''aborted''"

record dependency =
  dep_source_chain_id :: u64
  dep_dest_chain_id :: u64
  dep_sender :: address
  dep_receiver :: address
  dep_label :: bytes
  dep_data :: "bytes option"
  dep_session_id :: u256

record out_message =
  out_source_chain_id :: u64
  out_dest_chain_id :: u64
  out_sender :: address
  out_receiver :: address
  out_label :: string
  out_data :: bytes
  out_session_id :: u256

text \<open>The protobuf mailbox message, with the fields the sources construct.\<close>

record mailbox_message =
  msg_instance_id :: bytes
  msg_source_chain :: u64
  msg_destination_chain :: u64
  msg_sender :: bytes
  msg_receiver :: bytes
  msg_label :: string
  msg_payload :: bytes
  msg_session_id :: bytes

text \<open>Account overrides of the JSON-RPC state-override object, with the fields the sources use.\<close>

type_synonym slot_map = "(u256, u256) hmap"

record account_override =
  acct_balance :: "u256 option"
  acct_nonce :: "u64 option"
  acct_code :: "bytes option"
  acct_state :: "slot_map option"
  acct_state_diff :: "slot_map option"

definition account_override_default :: account_override where
  "account_override_default = \<lparr>acct_balance = None, acct_nonce = None, acct_code = None,
     acct_state = None, acct_state_diff = None\<rparr>"

type_synonym state_override = "(address, account_override) hmap"

record simulation_result =
  sim_success :: bool
  sim_error :: "string option"
  sim_state_overrides :: "state_override option"
  sim_dependencies :: "dependency list"
  sim_outbound_messages :: "out_message list"

text \<open>Transactions per chain, and the domain form of an XT request.\<close>

type_synonym raw_txs = "(u64, bytes list) hmap"

record transaction_request =
  tr_chain_id :: u64
  tr_transactions :: "bytes list"

type_synonym xt_request = "transaction_request list"

section \<open>Errors\<close>

datatype coordinator_error =
    AlreadyRunning
  | NotRunning
  | InstanceNotFound string
  | InstanceAlreadyPending string
  | PeriodNotInitialized
  | StalePeriod (err_current: u64) (err_received: u64)
  | FuturePeriod u64 u64
  | StaleSequence u64 u64
  | NoTransactions
  | PublisherNotConnected
  | TransactionDecode string
  | Simulation string
  | Mailbox string
  | Nonce string
  | PutInboxNotConfigured
  | BuilderControl string
  | CircTimeout u64
  | TooManyPendingInstances nat
  | Other string

datatype mailbox_error = Queue string | Send string | Parse string | Abi string

fun show_coordinator_error :: "externals \<Rightarrow> coordinator_error \<Rightarrow> string" where
  "show_coordinator_error X AlreadyRunning = ''coordinator already running''"
| "show_coordinator_error X NotRunning = ''coordinator not running''"
| "show_coordinator_error X (InstanceNotFound i) = ''instance not found: '' @ i"
| "show_coordinator_error X (InstanceAlreadyPending i) = ''instance already pending: '' @ i"
| "show_coordinator_error X PeriodNotInitialized = ''period not initialized''"
| "show_coordinator_error X (StalePeriod c r) =
     ''stale period: received '' @ show_period_id X r @ '', current '' @ show_period_id X c"
| "show_coordinator_error X (FuturePeriod c r) =
     ''future period: received '' @ show_period_id X r @ '', current '' @ show_period_id X c"
| "show_coordinator_error X (StaleSequence l r) =
     ''stale sequence number: received '' @ show_sequence X r @ '', last accepted '' @ show_sequence X l"
| "show_coordinator_error X NoTransactions = ''no transactions provided''"
| "show_coordinator_error X PublisherNotConnected = ''publisher not connected''"
| "show_coordinator_error X (TransactionDecode s) = ''transaction decode error: '' @ s"
| "show_coordinator_error X (Simulation s) = ''simulation error: '' @ s"
| "show_coordinator_error X (Mailbox s) = ''mailbox error: '' @ s"
| "show_coordinator_error X (Nonce s) = ''nonce error: '' @ s"
| "show_coordinator_error X PutInboxNotConfigured = ''put inbox builder not configured''"
| "show_coordinator_error X (BuilderControl s) = ''builder control error: '' @ s"
| "show_coordinator_error X (CircTimeout c) = ''timeout waiting for CIRC from chain '' @ show_u64 c"
| "show_coordinator_error X (TooManyPendingInstances n) =
     ''too many pending instances (limit: '' @ show_nat n @ '')''"
| "show_coordinator_error X (Other s) = s"

fun show_mailbox_error :: "mailbox_error \<Rightarrow> string" where
  "show_mailbox_error (Queue s) = ''queue error: '' @ s"
| "show_mailbox_error (Send s) = ''send error: '' @ s"
| "show_mailbox_error (Parse s) = ''parse error: '' @ s"
| "show_mailbox_error (Abi s) = ''abi encoding error: '' @ s"

section \<open>Lemmas\<close>

lemma append_minus_inject:
  assumes "CHR ''-'' \<notin> set a" "CHR ''-'' \<notin> set b"
    and "a @ CHR ''-'' # x = b @ CHR ''-'' # y"
  shows "a = b \<and> x = y"
  using assms
proof (induction a arbitrary: b)
  case Nil
  then show ?case by (cases b) auto
next
  case (Cons c a)
  then show ?case by (cases b) auto
qed

lemma minus_not_in_show: "CHR ''-'' \<notin> set (show_nat n)"
  using show_nat_digits[of "CHR ''-''" n] by auto

lemma standalone_inject:
  assumes "chain_display_spec X"
  shows "standalone X c s = standalone X c' s' \<longleftrightarrow> c = c' \<and> s = s'"
proof
  assume "standalone X c s = standalone X c' s'"
  then have "show_u64 c @ CHR ''-'' # show_u64 s = show_u64 c' @ CHR ''-'' # show_u64 s'"
    using assms by (simp add: standalone_def chain_display_spec_def)
  then have "show_u64 c = show_u64 c' \<and> show_u64 s = show_u64 s'"
    by (intro append_minus_inject) (auto simp: show_u64_def minus_not_in_show)
  then show "c = c' \<and> s = s'" by simp
qed simp

lemma standalone_not_hex:
  assumes "hex_spec X"
  shows "standalone X c s \<noteq> hex_encode X b"
proof
  assume "standalone X c s = hex_encode X b"
  then have "CHR ''x'' \<in> set (hex_encode X b)" by (metis standalone_def append_Cons list.set_intros(1))
  then show False using assms by (force simp: hex_spec_def hex_digits_def)
qed

lemma hex_encode_inject: "hex_spec X \<Longrightarrow> hex_encode X a = hex_encode X b \<longleftrightarrow> a = b"
  by (metis hex_spec_def option.inject)

lemma xt_id_roundtrip: "length bs = 32 \<Longrightarrow> xt_id_as_bytes (xt_id_from_bytes bs) = bs"
proof -
  assume len: "length bs = 32"
  then have "be_val bs < 256 ^ 32" using be_val_less[of bs] by simp
  then have "unat (word_of_nat (be_val bs) :: u256) = be_val bs"
    by (simp add: unat_of_nat)
  then show ?thesis
    using len be_bytes_be_val[of bs] by (simp add: xt_id_as_bytes_def xt_id_from_bytes_def)
qed

end
