(* ===== verification/Publisher_Period.thy ===== *)
theory Publisher_Period
  imports Primitives
begin

text \<open>
  Admission of publisher-assigned instances,
  \<open>coordinator/src/model/publisher_period.rs\<close>: the current period and the last
  accepted sequence number.  The interface locale \<open>admission_gate\<close> states what an
  admission check promises; it is interpreted on \<open>accept_start_instance\<close>.
\<close>

section \<open>Model\<close>

record publisher_period =
  current_period :: "u64 option"
  last_sequence :: "u64 option"

definition period_default :: publisher_period where
  "period_default = \<lparr>current_period = None, last_sequence = None\<rparr>"

definition period_start :: "u64 \<Rightarrow> publisher_period \<Rightarrow> publisher_period" where
  "period_start period_id pp = pp\<lparr>current_period := Some period_id, last_sequence := None\<rparr>"

definition period_close :: "publisher_period \<Rightarrow> publisher_period" where
  "period_close pp = period_default"

definition accept_start_instance ::
  "u64 \<Rightarrow> u64 \<Rightarrow> publisher_period \<Rightarrow> (coordinator_error, unit) result \<times> publisher_period" where
  "accept_start_instance period_id sequence_number pp =
    (case current_period pp of
      None \<Rightarrow> (Inl PeriodNotInitialized, pp)
    | Some current \<Rightarrow>
        if period_id < current then (Inl (StalePeriod current period_id), pp)
        else if period_id > current then (Inl (FuturePeriod current period_id), pp)
        else (case last_sequence pp of
            Some last_seq \<Rightarrow>
              if sequence_number \<le> last_seq then (Inl (StaleSequence last_seq sequence_number), pp)
              else (Inr (), pp\<lparr>last_sequence := Some sequence_number\<rparr>)
          | None \<Rightarrow> (Inr (), pp\<lparr>last_sequence := Some sequence_number\<rparr>)))"

section \<open>The contract of an admission check\<close>

locale admission_gate =
  fixes accept :: "'k \<Rightarrow> 's \<Rightarrow> ('e + unit) \<times> 's"
    and above :: "'s \<Rightarrow> 'k \<Rightarrow> bool"
    and lt :: "'k \<Rightarrow> 'k \<Rightarrow> bool"
  assumes reject_keeps: "accept k s = (Inl e, t) \<Longrightarrow> t = s"
    and admit_above: "accept k s = (Inr (), t) \<Longrightarrow> above s k"
    and admit_raises: "accept k s = (Inr (), t) \<Longrightarrow> above t k' \<Longrightarrow> lt k k' \<and> above s k'"
    and above_admitted: "above s k \<Longrightarrow> \<exists>t. accept k s = (Inr (), t)"
begin

lemma rejected_iff: "(\<exists>e t. accept k s = (Inl e, t)) \<longleftrightarrow> \<not> above s k"
proof
  show "\<exists>e t. accept k s = (Inl e, t) \<Longrightarrow> \<not> above s k"
    using above_admitted[of s k] by auto
  assume "\<not> above s k"
  then have "\<nexists>t. accept k s = (Inr (), t)" using admit_above by blast
  then show "\<exists>e t. accept k s = (Inl e, t)"
    by (cases "accept k s") (metis (full_types) obj_sumE unit.exhaust)
qed

lemma no_replay: "\<not> lt k k \<Longrightarrow> accept k s = (Inr (), t) \<Longrightarrow> \<not> above t k"
  using admit_raises by blast

end

definition period_above :: "publisher_period \<Rightarrow> u64 \<times> u64 \<Rightarrow> bool" where
  "period_above pp k \<longleftrightarrow> current_period pp = Some (fst k) \<and>
     (case last_sequence pp of None \<Rightarrow> True | Some l \<Rightarrow> l < snd k)"

definition period_lt :: "u64 \<times> u64 \<Rightarrow> u64 \<times> u64 \<Rightarrow> bool" where
  "period_lt k k' \<longleftrightarrow> fst k = fst k' \<and> snd k < snd k'"

interpretation pg: admission_gate "\<lambda>k. accept_start_instance (fst k) (snd k)" period_above period_lt
  by unfold_locales
    (auto simp: accept_start_instance_def period_above_def period_lt_def
      split: option.splits if_splits)

section \<open>Sequences of period events\<close>

datatype period_op = PeriodStart u64 | PeriodClose | PeriodAccept u64 u64

text \<open>
  The instances admitted by a sequence of events, each with the number of
  period changes that came before it.
\<close>

fun admitted :: "period_op list \<Rightarrow> nat \<Rightarrow> publisher_period \<Rightarrow> (nat \<times> u64 \<times> u64) list" where
  "admitted [] e pp = []"
| "admitted (PeriodStart p # ops) e pp = admitted ops (Suc e) (period_start p pp)"
| "admitted (PeriodClose # ops) e pp = admitted ops (Suc e) (period_close pp)"
| "admitted (PeriodAccept p s # ops) e pp =
    (case accept_start_instance p s pp of
      (Inl _, pp') \<Rightarrow> admitted ops e pp'
    | (Inr _, pp') \<Rightarrow> (e, p, s) # admitted ops e pp')"

definition epoch_order :: "nat \<times> u64 \<times> u64 \<Rightarrow> nat \<times> u64 \<times> u64 \<Rightarrow> bool" where
  "epoch_order a b \<longleftrightarrow> fst a < fst b \<or> fst a = fst b \<and> period_lt (snd a) (snd b)"

lemma admitted_sorted:
  "sorted_wrt epoch_order (admitted ops e pp) \<and>
   (\<forall>a \<in> set (admitted ops e pp). e < fst a \<or> fst a = e \<and> period_above pp (snd a))"
proof (induction ops e pp rule: admitted.induct)
  case (1 e pp)
  then show ?case by simp
next
  case (2 p ops e pp)
  then show ?case by auto
next
  case (3 ops e pp)
  then show ?case by auto
next
  case (4 p s ops e pp)
  obtain r pp' where acc: "accept_start_instance p s pp = (r, pp')" by fastforce
  show ?case
  proof (cases r)
    case (Inl err)
    with acc have "pp' = pp" using pg.reject_keeps[of "(p, s)" pp] by simp
    with Inl acc 4(1) show ?thesis by simp
  next
    case (Inr u)
    then have adm: "accept_start_instance p s pp = (Inr (), pp')" using acc by simp
    have ih: "sorted_wrt epoch_order (admitted ops e pp')"
      "\<forall>a \<in> set (admitted ops e pp'). e < fst a \<or> fst a = e \<and> period_above pp' (snd a)"
      using 4(2)[OF acc[symmetric] Inr] by auto
    have up: "period_lt (p, s) k \<and> period_above pp k" if "period_above pp' k" for k
      using pg.admit_raises[of "(p, s)" pp pp' k] adm that by simp
    have here: "period_above pp (p, s)" using pg.admit_above[of "(p, s)" pp pp'] adm by simp
    have "\<forall>a \<in> set (admitted ops e pp'). epoch_order (e, p, s) a"
      using ih(2) up by (auto simp: epoch_order_def)
    moreover have "\<forall>a \<in> set (admitted ops e pp'). e < fst a \<or> fst a = e \<and> period_above pp (snd a)"
      using ih(2) up by blast
    ultimately show ?thesis using ih(1) here adm by simp
  qed
qed

section \<open>Properties\<close>

text \<open>C7: over any sequence of period starts, closes and start-instance messages, the instances admitted
  within one period epoch have that epoch's period id and strictly increasing sequence numbers; a
  sequence number is never admitted twice without a period change in between.\<close>

theorem admitted_strictly_increasing: "sorted_wrt epoch_order (admitted ops e pp)"
  using admitted_sorted by blast

text \<open>An instance is admitted exactly when a period is open, the message names that period, and
  its sequence number exceeds the last admitted one; every rejection leaves the state unchanged and
  names its cause: no period, stale period, future period or stale sequence.\<close>

lemma accept_start_instance_spec:
  "accept_start_instance p s pp =
    (if period_above pp (p, s) then (Inr (), pp\<lparr>last_sequence := Some s\<rparr>)
     else (Inl (case current_period pp of
         None \<Rightarrow> PeriodNotInitialized
       | Some c \<Rightarrow> if p < c then StalePeriod c p else if c < p then FuturePeriod c p
           else StaleSequence (the (last_sequence pp)) s), pp))"
  by (auto simp: accept_start_instance_def period_above_def split: option.splits)

end
