(* ===== verification/Nonce_Manager.thy ===== *)
theory Nonce_Manager
  imports Primitives
begin

text \<open>
  The lane of \<open>putInbox\<close> nonces, \<open>coordinator/src/nonce_manager.rs\<close>: per-XT
  reservations (\<open>live\<close>), nonces freed by aborts (\<open>recycled\<close>) and the canonical
  floor.  Every operation runs under one mutex, so each is one function on the
  record \<open>nonce_inner\<close>.  The canonical nonce fetched by \<open>reserve\<close> is an argument:
  the value or the error the signer's node answers.

  \<open>nm_inv\<close> says that reservations are disjoint from each other and from the
  recycled nonces, \<open>nm_gapless\<close> that no nonce between the floor and the end of the
  lane is lost.  The locale \<open>nonce_lane\<close> is what builder control relies on.
\<close>

section \<open>Model\<close>

record reserved_range =
  rng_start :: u64
  rng_end :: u64

record nonce_inner =
  canonical_floor :: u64
  initialized :: bool
  live :: "(string, reserved_range) hmap"
  recycled :: "u64 set"

definition nonce_new :: nonce_inner where
  "nonce_new = \<lparr>canonical_floor = 0, initialized = False, live = [], recycled = {}\<rparr>"

definition live_end :: "nonce_inner \<Rightarrow> u64" where
  "live_end inner = foldr max (map rng_end (hm_values (live inner))) (canonical_floor inner)"

definition first_recycled :: "nonce_inner \<Rightarrow> u64 option" where
  "first_recycled inner = (if recycled inner = {} then None else Some (Min (recycled inner)))"

text \<open>Raising the floor and trimming what the chain has moved past.\<close>

definition merge_canonical :: "u64 \<Rightarrow> nonce_inner \<Rightarrow> nonce_inner" where
  "merge_canonical canonical inner =
    (let floor = max (canonical_floor inner) canonical in
     inner\<lparr>canonical_floor := floor, initialized := True,
       recycled := {n \<in> recycled inner. floor \<le> n},
       live := hm_retain (\<lambda>_ rng. floor < rng_end rng) (live inner)\<rparr>)"

definition start_nonce :: "nat \<Rightarrow> nonce_inner \<Rightarrow> u64" where
  "start_nonce cnt inner =
    (if cnt = 1 then (case first_recycled inner of Some n \<Rightarrow> n | None \<Rightarrow> live_end inner)
     else live_end inner)"

definition claim_range :: "string \<Rightarrow> u64 \<Rightarrow> u64 \<Rightarrow> nonce_inner \<Rightarrow> nonce_inner" where
  "claim_range instance_id start_n end_n inner =
    inner\<lparr>recycled := fold (\<lambda>n s. s - {n}) (u64_range start_n end_n) (recycled inner),
      live := hm_insert instance_id \<lparr>rng_start = start_n, rng_end = end_n\<rparr> (live inner)\<rparr>"

definition reserve ::
  "string \<Rightarrow> nat \<Rightarrow> (coordinator_error, u64) result \<Rightarrow> nonce_inner
    \<Rightarrow> (coordinator_error, u64) result \<times> nonce_inner" where
  "reserve instance_id cnt fetch_canonical inner =
    (case fetch_canonical of
      Inl err \<Rightarrow> (Inl err, inner)
    | Inr canonical \<Rightarrow>
        (let inner = merge_canonical canonical inner;
             start_n = start_nonce cnt inner;
             end_n = sat_add start_n (word_of_nat cnt)
         in (Inr start_n, claim_range instance_id start_n end_n inner)))"

definition release_confirmed :: "string \<Rightarrow> nonce_inner \<Rightarrow> nonce_inner" where
  "release_confirmed instance_id inner =
    (case hm_get (live inner) instance_id of
      None \<Rightarrow> inner
    | Some rng \<Rightarrow> inner\<lparr>live := hm_remove instance_id (live inner),
        canonical_floor := max (canonical_floor inner) (rng_end rng)\<rparr>)"

definition release_aborted :: "string \<Rightarrow> nonce_inner \<Rightarrow> nonce_inner" where
  "release_aborted instance_id inner =
    (case hm_get (live inner) instance_id of
      None \<Rightarrow> inner
    | Some rng \<Rightarrow> inner\<lparr>live := hm_remove instance_id (live inner),
        recycled := fold (\<lambda>n s. if canonical_floor inner \<le> n then insert n s else s)
          (u64_range (rng_start rng) (rng_end rng)) (recycled inner)\<rparr>)"

definition nonce_reset :: "nonce_inner \<Rightarrow> nonce_inner" where
  "nonce_reset inner = nonce_new"

section \<open>Ownership\<close>

definition range_set :: "reserved_range \<Rightarrow> u64 set" where
  "range_set r = {rng_start r..<rng_end r}"

definition owned :: "nonce_inner \<Rightarrow> string \<Rightarrow> u64 set" where
  "owned inner i = (case hm_get (live inner) i of None \<Rightarrow> {} | Some r \<Rightarrow> range_set r)"

definition nm_inv :: "nonce_inner \<Rightarrow> bool" where
  "nm_inv inner \<longleftrightarrow> hm_wf (live inner) \<and>
     (\<forall>i r. hm_get (live inner) i = Some r \<longrightarrow> rng_start r \<le> rng_end r) \<and>
     (\<forall>i j. i \<noteq> j \<longrightarrow> owned inner i \<inter> owned inner j = {}) \<and>
     (\<forall>i. owned inner i \<inter> recycled inner = {})"

definition claimed :: "nonce_inner \<Rightarrow> u64 set" where
  "claimed inner = (\<Union>i. owned inner i)"

definition nm_gapless :: "nonce_inner \<Rightarrow> bool" where
  "nm_gapless inner \<longleftrightarrow> (\<forall>k \<ge> canonical_floor inner.
     k < live_end inner \<or> (\<exists>r \<in> recycled inner. k < r) \<longrightarrow> k \<in> claimed inner \<union> recycled inner)"

named_theorems nm_simps \<open>ownership after each nonce operation\<close>

lemma fold_remove: "fold (\<lambda>n s. s - {n}) xs S = S - set xs"
  by (induction xs arbitrary: S) auto

lemma fold_recycle: "fold (\<lambda>n s. if P n then insert n s else s) xs S = S \<union> {n \<in> set xs. P n}"
  by (induction xs arbitrary: S) auto

lemma live_end_floor: "canonical_floor inner \<le> live_end inner"
  by (simp add: live_end_def foldr_max_base)

lemma live_end_ge: "hm_get (live inner) i = Some r \<Longrightarrow> rng_end r \<le> live_end inner"
  unfolding live_end_def by (rule foldr_max_ge) (force dest: map_of_SomeD)

lemma live_end_cases:
  assumes "k < live_end inner" "canonical_floor inner \<le> k" "hm_wf (live inner)"
  obtains i r where "hm_get (live inner) i = Some r" "k < rng_end r"
proof -
  have "live_end inner \<noteq> canonical_floor inner" using assms by auto
  then have "live_end inner \<in> set (map rng_end (hm_values (live inner)))"
    unfolding live_end_def using foldr_max_in by metis
  then obtain i r where "(i, r) \<in> set (live inner)" "rng_end r = live_end inner" by auto
  then show ?thesis using that assms by (metis wf_map_of)
qed

lemma owned_below_end: "n \<in> owned inner i \<Longrightarrow> n < live_end inner"
  by (auto simp: owned_def range_set_def split: option.splits dest: live_end_ge)

lemma owned_merge [nm_simps]:
  assumes "nm_inv inner"
  shows "owned (merge_canonical c inner) i =
    (if \<exists>r. hm_get (live inner) i = Some r \<and> rng_end r \<le> max (canonical_floor inner) c then {}
     else owned inner i)"
  using assms
  by (auto simp: owned_def merge_canonical_def Let_def nm_inv_def hm_simps not_le
      simp del: max_less_iff_conj split: option.splits)

lemma owned_claim [nm_simps]:
  "owned (claim_range i a b inner) j = (if j = i then {a..<b} else owned inner j)"
  by (simp add: owned_def claim_range_def range_set_def hm_simps)

lemma owned_confirmed [nm_simps]:
  "owned (release_confirmed i inner) j = (if j = i then {} else owned inner j)"
  by (simp add: owned_def release_confirmed_def hm_simps split: option.splits)

lemma owned_aborted [nm_simps]:
  "owned (release_aborted i inner) j = (if j = i then {} else owned inner j)"
  by (simp add: owned_def release_aborted_def hm_simps split: option.splits)

lemma owned_reset [nm_simps]: "owned (nonce_reset inner) j = {}"
  by (simp add: owned_def nonce_reset_def nonce_new_def)

lemma recycled_claim [nm_simps]: "recycled (claim_range i a b inner) = recycled inner - {a..<b}"
  by (simp add: claim_range_def fold_remove)

lemma recycled_aborted [nm_simps]:
  "recycled (release_aborted i inner) =
    recycled inner \<union> {n \<in> owned inner i. canonical_floor inner \<le> n}"
  by (auto simp: release_aborted_def owned_def fold_recycle range_set_def split: option.splits)

lemma recycled_confirmed [nm_simps]: "recycled (release_confirmed i inner) = recycled inner"
  by (simp add: release_confirmed_def split: option.splits)

lemma floor_aborted [nm_simps]: "canonical_floor (release_aborted i inner) = canonical_floor inner"
  by (simp add: release_aborted_def split: option.splits)

lemma live_aborted [nm_simps]: "live (release_aborted i inner) = hm_remove i (live inner)"
  by (auto simp: release_aborted_def delete_id map_of_eq_None_iff split: option.splits)

lemma live_confirmed [nm_simps]: "live (release_confirmed i inner) = hm_remove i (live inner)"
  by (auto simp: release_confirmed_def delete_id map_of_eq_None_iff split: option.splits)

section \<open>The invariant is kept by every operation\<close>

lemma inv_new [simp]: "nm_inv nonce_new"
  by (simp add: nm_inv_def nonce_new_def owned_def)

lemma inv_owned_unique: "nm_inv inner \<Longrightarrow> n \<in> owned inner i \<Longrightarrow> n \<in> owned inner j \<Longrightarrow> i = j"
  unfolding nm_inv_def by blast

lemma inv_owned_not_recycled: "nm_inv inner \<Longrightarrow> n \<in> owned inner i \<Longrightarrow> n \<notin> recycled inner"
  unfolding nm_inv_def by blast

lemma inv_wf: "nm_inv inner \<Longrightarrow> hm_wf (live inner)"
  by (simp add: nm_inv_def)

lemma inv_ranges: "nm_inv inner \<Longrightarrow> hm_get (live inner) i = Some r \<Longrightarrow> rng_start r \<le> rng_end r"
  by (simp add: nm_inv_def)

lemma inv_merge:
  assumes "nm_inv inner"
  shows "nm_inv (merge_canonical c inner)"
proof -
  have "hm_wf (live (merge_canonical c inner))"
    and "recycled (merge_canonical c inner) \<subseteq> recycled inner"
    using assms by (auto simp: merge_canonical_def Let_def nm_inv_def)
  moreover have "\<forall>i r. hm_get (live (merge_canonical c inner)) i = Some r \<longrightarrow> rng_start r \<le> rng_end r"
    using assms by (auto simp: merge_canonical_def Let_def nm_inv_def simp del: max_less_iff_conj
        dest!: hm.ret_subset)
  moreover have "\<forall>i. owned (merge_canonical c inner) i \<subseteq> owned inner i"
    using assms by (simp add: nm_simps)
  ultimately show ?thesis using assms unfolding nm_inv_def by blast
qed

lemma first_recycled_Some:
  "first_recycled inner = Some n \<Longrightarrow> n \<in> recycled inner \<and> (\<forall>m \<in> recycled inner. n \<le> m)"
  using Min_in[of "recycled inner"] Min_le[of "recycled inner"]
  by (auto simp: first_recycled_def simp del: Min_in split: if_splits)

lemma start_nonce_free:
  assumes "nm_inv inner" "n \<in> {start_nonce c inner..<sat_add (start_nonce c inner) (word_of_nat c)}"
  shows "n \<notin> owned inner j"
proof (cases "c = 1 \<and> first_recycled inner \<noteq> None")
  case True
  then obtain m where m: "first_recycled inner = Some m" by auto
  then have st: "start_nonce c inner = m" using True by (simp add: start_nonce_def)
  have "unat n < unat (sat_add m 1)" "unat m \<le> unat n"
    using assms(2) st True by (auto simp: word_less_nat_alt word_le_nat_alt)
  then have "unat n = unat m" by (simp add: sat_add_unat)
  then have "n \<in> recycled inner" using first_recycled_Some[OF m] word_unat_eq_iff[of n m] by simp
  then show ?thesis using assms(1) by (auto simp: nm_inv_def)
next
  case False
  then have "start_nonce c inner = live_end inner" by (auto simp: start_nonce_def)
  then show ?thesis using assms(2) owned_below_end by fastforce
qed

lemma inv_claim:
  assumes "nm_inv inner" "a \<le> b" "\<And>n j. n \<in> {a..<b} \<Longrightarrow> n \<notin> owned inner j"
  shows "nm_inv (claim_range i a b inner)"
proof -
  have "hm_wf (live (claim_range i a b inner))"
    using assms(1) by (simp add: claim_range_def nm_inv_def)
  moreover have "\<forall>j r. hm_get (live (claim_range i a b inner)) j = Some r \<longrightarrow> rng_start r \<le> rng_end r"
    using assms(1,2) by (auto simp: claim_range_def nm_inv_def hm_simps split: if_splits)
  moreover have "\<forall>j. owned (claim_range i a b inner) j \<inter> recycled (claim_range i a b inner) = {}"
    using assms(1) by (auto simp: nm_simps nm_inv_def)
  moreover have "owned (claim_range i a b inner) j \<inter> owned (claim_range i a b inner) k = {}"
    if "j \<noteq> k" for j k
    using assms(1,3) that by (auto simp: nm_simps nm_inv_def)
  ultimately show ?thesis unfolding nm_inv_def by blast
qed

lemma inv_reserve: "nm_inv inner \<Longrightarrow> nm_inv (snd (reserve i c f inner))"
  unfolding reserve_def
  by (auto simp: Let_def sat_add_ge inv_merge split: sum.splits
      intro!: inv_claim dest: start_nonce_free[OF inv_merge])

lemma inv_confirmed: "nm_inv inner \<Longrightarrow> nm_inv (release_confirmed i inner)"
  unfolding nm_inv_def[of "release_confirmed i inner"]
  by (auto simp: nm_simps inv_wf hm_simps split: if_splits
      dest: inv_owned_unique inv_owned_not_recycled inv_ranges)

lemma inv_aborted: "nm_inv inner \<Longrightarrow> nm_inv (release_aborted i inner)"
  unfolding nm_inv_def[of "release_aborted i inner"]
  by (auto simp: nm_simps inv_wf hm_simps split: if_splits
      dest: inv_owned_unique inv_owned_not_recycled inv_ranges)

lemma inv_reset: "nm_inv (nonce_reset inner)"
  by (simp add: nonce_reset_def)

section \<open>What a reservation grants\<close>

lemma card_u64_interval: "card {a..<b :: u64} = unat b - unat a"
proof -
  have "unat ` {a..<b} = {unat a..<unat b}"
  proof (intro equalityI subsetI)
    fix n assume "n \<in> {unat a..<unat b}"
    then have "unat (word_of_nat n :: u64) = n"
      using unat_bound[of b] by (simp add: unat_of_nat)
    then show "n \<in> unat ` {a..<b}"
      using \<open>n \<in> {unat a..<unat b}\<close>
      by (intro image_eqI[of _ _ "word_of_nat n"]) (auto simp: word_le_nat_alt word_less_nat_alt)
  qed (auto simp: word_le_nat_alt word_less_nat_alt)
  moreover have "inj_on unat {a..<b}" by (simp add: inj_on_def word_unat_eq_iff)
  ultimately show ?thesis by (metis card_atLeastLessThan card_image)
qed

lemma start_nonce_ge_floor: "max (canonical_floor inner) c \<le> start_nonce k (merge_canonical c inner)"
proof (cases "first_recycled (merge_canonical c inner)")
  case None
  then show ?thesis using live_end_floor[of "merge_canonical c inner"]
    by (simp add: start_nonce_def merge_canonical_def Let_def)
next
  case (Some n)
  then have "n \<in> recycled (merge_canonical c inner)" by (simp add: first_recycled_Some)
  then have "max (canonical_floor inner) c \<le> n" by (simp add: merge_canonical_def Let_def)
  moreover have "max (canonical_floor inner) c \<le> live_end (merge_canonical c inner)"
    using live_end_floor[of "merge_canonical c inner"] by (simp add: merge_canonical_def Let_def)
  ultimately show ?thesis using Some by (simp add: start_nonce_def)
qed

lemma reserve_Inr:
  assumes "reserve i c f inner = (Inr st, inner')"
  obtains can where "f = Inr can" "st = start_nonce c (merge_canonical can inner)"
    "inner' = claim_range i st (sat_add st (word_of_nat c)) (merge_canonical can inner)"
  using assms by (auto simp: reserve_def Let_def split: sum.splits)

lemma reserve_Inl: "reserve i c f inner = (Inl e, inner') \<Longrightarrow> inner' = inner \<and> f = Inl e"
  by (auto simp: reserve_def Let_def split: sum.splits)

lemma owned_merge_subset: "nm_inv inner \<Longrightarrow> owned (merge_canonical c inner) i \<subseteq> owned inner i"
  by (simp add: owned_merge)

lemma reserve_owned:
  assumes "nm_inv inner" "reserve i c f inner = (Inr st, inner')"
  shows "owned inner' i = {st..<sat_add st (word_of_nat c)}"
    and "j \<noteq> i \<Longrightarrow> owned inner' j \<subseteq> owned inner j"
    and "canonical_floor inner \<le> st"
  using assms(2) subsetD[OF owned_merge_subset[OF assms(1)]] start_nonce_ge_floor[of inner _ c]
  by (auto elim!: reserve_Inr simp: owned_claim)

section \<open>The lane has no gaps\<close>

lemma gapless_new [simp]: "nm_gapless nonce_new"
  by (simp add: nm_gapless_def nonce_new_def live_end_def)

lemma gaplessD:
  assumes "nm_gapless inner" "canonical_floor inner \<le> k" "k < live_end inner \<or> r \<in> recycled inner \<and> k < r"
  shows "k \<in> recycled inner \<or> (\<exists>j. k \<in> owned inner j)"
  using assms by (auto simp: nm_gapless_def claimed_def)

lemma gaplessI:
  assumes "\<And>k i r. canonical_floor inner \<le> k \<Longrightarrow> hm_get (live inner) i = Some r \<Longrightarrow> k < rng_end r
      \<Longrightarrow> k \<notin> recycled inner \<Longrightarrow> \<exists>j. k \<in> owned inner j"
    and "\<And>k r. canonical_floor inner \<le> k \<Longrightarrow> r \<in> recycled inner \<Longrightarrow> k < r
      \<Longrightarrow> k \<notin> recycled inner \<Longrightarrow> \<exists>j. k \<in> owned inner j"
    and "hm_wf (live inner)"
  shows "nm_gapless inner"
  unfolding nm_gapless_def claimed_def
proof (intro allI impI)
  fix k
  assume fl: "canonical_floor inner \<le> k" and "k < live_end inner \<or> (\<exists>r\<in>recycled inner. k < r)"
  then show "k \<in> \<Union> (range (owned inner)) \<union> recycled inner"
  proof (elim disjE bexE)
    assume "k < live_end inner"
    then obtain i r where "hm_get (live inner) i = Some r" "k < rng_end r"
      using live_end_cases[OF _ fl assms(3)] by metis
    then show ?thesis using assms(1)[OF fl] by blast
  next
    fix r assume "r \<in> recycled inner" "k < r"
    then show ?thesis using assms(2)[OF fl] by blast
  qed
qed

lemma gapless_merge:
  assumes "nm_inv inner" "nm_gapless inner"
  shows "nm_gapless (merge_canonical c inner)"
proof -
  let ?m = "merge_canonical c inner"
  have covered: "\<exists>j. k \<in> owned ?m j"
    if k: "canonical_floor ?m \<le> k" "k \<notin> recycled ?m"
      and below: "k < live_end inner \<or> r \<in> recycled inner \<and> k < r" for k r
  proof -
    have fl: "max (canonical_floor inner) c \<le> k" using k by (simp add: merge_canonical_def Let_def)
    then have "k \<notin> recycled inner" using k by (auto simp: merge_canonical_def Let_def)
    then obtain j where j: "k \<in> owned inner j" using gaplessD[OF assms(2) _ below] fl by auto
    then have "\<not> rng_end r \<le> max (canonical_floor inner) c" if "hm_get (live inner) j = Some r" for r
      using that fl by (auto simp: owned_def range_set_def simp del: max.bounded_iff)
    then have "k \<in> owned ?m j" using j owned_merge[OF assms(1)] by auto
    then show ?thesis by blast
  qed
  have live_sub: "hm_get (live inner) i = Some r" if "hm_get (live ?m) i = Some r" for i r
    using that hm.ret_subset[OF inv_wf[OF assms(1)]]
    unfolding merge_canonical_def Let_def by simp
  show ?thesis
  proof (rule gaplessI)
    fix k i r
    assume k: "canonical_floor ?m \<le> k" "hm_get (live ?m) i = Some r" "k < rng_end r" "k \<notin> recycled ?m"
    then have "k < live_end inner" using live_end_ge[OF live_sub] by fastforce
    then show "\<exists>j. k \<in> owned ?m j" using covered k by blast
  next
    fix k r
    assume k: "canonical_floor ?m \<le> k" "r \<in> recycled ?m" "k < r" "k \<notin> recycled ?m"
    then have "r \<in> recycled inner" by (simp add: merge_canonical_def Let_def)
    then show "\<exists>j. k \<in> owned ?m j" using covered k by blast
  next
    show "hm_wf (live ?m)" using assms(1) by (intro inv_wf inv_merge)
  qed
qed

lemma gapless_claim:
  assumes "nm_inv inner" "nm_gapless inner" "hm_get (live inner) i = None" "a \<le> b"
    and below: "\<And>k. canonical_floor inner \<le> k \<Longrightarrow> k < a \<Longrightarrow> k \<in> recycled inner \<or> (\<exists>j. k \<in> owned inner j)"
  shows "nm_gapless (claim_range i a b inner)"
proof -
  let ?m = "claim_range i a b inner"
  have keep: "\<exists>j. k \<in> owned ?m j"
    if k: "k \<in> recycled inner \<or> (\<exists>j. k \<in> owned inner j)" "k \<notin> recycled ?m" for k
  proof -
    have none: "owned inner i = {}" using assms(3) by (simp add: owned_def)
    show ?thesis
    proof (cases "k \<in> recycled inner")
      case True
      then have "k \<in> owned ?m i" using k(2) by (simp add: owned_claim recycled_claim)
      then show ?thesis by blast
    next
      case False
      then obtain j where "k \<in> owned inner j" using k(1) by blast
      then have "k \<in> owned ?m j" using none by (cases "j = i") (auto simp: owned_claim)
      then show ?thesis by blast
    qed
  qed
  show ?thesis
  proof (rule gaplessI)
    fix k j r
    assume k: "canonical_floor ?m \<le> k" "hm_get (live ?m) j = Some r" "k < rng_end r" "k \<notin> recycled ?m"
    then have fl: "canonical_floor inner \<le> k" by (simp add: claim_range_def)
    show "\<exists>j. k \<in> owned ?m j"
    proof (cases "j = i")
      case True
      then have "k < b" using k(2,3) by (auto simp: claim_range_def hm_simps)
      show ?thesis
      proof (cases "k < a")
        case False
        then have "k \<in> owned ?m i" using \<open>k < b\<close> by (simp add: owned_claim)
        then show ?thesis by blast
      qed (use below[OF fl] keep k(4) in blast)
    next
      case False
      then have "k < live_end inner" using k live_end_ge[of inner j r] by (simp add: claim_range_def hm_simps)
      then show ?thesis using gaplessD[OF assms(2) fl, where r = k] keep k(4) by blast
    qed
  next
    fix k r
    assume k: "canonical_floor ?m \<le> k" "r \<in> recycled ?m" "k < r" "k \<notin> recycled ?m"
    then have "canonical_floor inner \<le> k" "r \<in> recycled inner" by (simp_all add: claim_range_def fold_remove)
    then show "\<exists>j. k \<in> owned ?m j" using gaplessD[OF assms(2)] keep k by blast
  next
    show "hm_wf (live ?m)" using assms(1) by (simp add: claim_range_def inv_wf)
  qed
qed

lemma gapless_reserve:
  assumes "nm_inv inner" "nm_gapless inner" "hm_get (live inner) i = None"
  shows "nm_gapless (snd (reserve i c f inner))"
proof (cases f)
  case (Inl e)
  then show ?thesis using assms by (simp add: reserve_def)
next
  case (Inr can)
  let ?m = "merge_canonical can inner"
  have m: "nm_inv ?m" "nm_gapless ?m" using assms inv_merge gapless_merge by auto
  have "hm_get (live ?m) i = None"
    using assms inv_wf by (simp add: merge_canonical_def Let_def hm_simps)
  moreover have "k \<in> recycled ?m \<or> (\<exists>j. k \<in> owned ?m j)"
    if "canonical_floor ?m \<le> k" "k < start_nonce c ?m" for k
    using that gaplessD[OF m(2)] first_recycled_Some[of ?m]
    by (cases "first_recycled ?m") (auto simp: start_nonce_def split: if_splits)
  ultimately show ?thesis
    using Inr m by (auto simp: reserve_def Let_def sat_add_ge intro!: gapless_claim)
qed

lemma gapless_confirmed:
  assumes "nm_inv inner" "nm_gapless inner"
  shows "nm_gapless (release_confirmed i inner)"
proof (rule gaplessI)
  let ?m = "release_confirmed i inner"
  have keep: "\<exists>j. k \<in> owned ?m j"
    if k: "canonical_floor ?m \<le> k" "k \<notin> recycled ?m" "k < live_end inner \<or> r \<in> recycled inner \<and> k < r" for k r
  proof -
    have "canonical_floor inner \<le> k" using k by (auto simp: release_confirmed_def split: option.splits)
    then obtain j where j: "k \<in> owned inner j"
      using gaplessD[OF assms(2) _ k(3)] k(2) unfolding recycled_confirmed by blast
    have "k \<notin> owned inner i"
      using k(1) by (auto simp: owned_def range_set_def release_confirmed_def split: option.splits)
    then show ?thesis using j by (auto simp: nm_simps)
  qed
  show "\<exists>j. k \<in> owned ?m j"
    if "canonical_floor ?m \<le> k" "hm_get (live ?m) j = Some r" "k < rng_end r" "k \<notin> recycled ?m" for k j r
    using that keep[of k 0] live_end_ge[of inner j r]
    by (auto simp: live_confirmed hm_simps split: if_splits dest: order.strict_trans2)
  show "\<exists>j. k \<in> owned ?m j"
    if "canonical_floor ?m \<le> k" "r \<in> recycled ?m" "k < r" "k \<notin> recycled ?m" for k r
    using that keep[of k r] by (simp add: nm_simps)
  show "hm_wf (live ?m)" using assms(1) by (simp add: live_confirmed inv_wf)
qed

lemma gapless_aborted:
  assumes "nm_inv inner" "nm_gapless inner"
  shows "nm_gapless (release_aborted i inner)"
proof (rule gaplessI)
  let ?m = "release_aborted i inner"
  have keep: "\<exists>j. k \<in> owned ?m j"
    if "canonical_floor ?m \<le> k" "k \<notin> recycled ?m" "k < live_end inner \<or> r \<in> recycled inner \<and> k < r" for k r
    using gaplessD[OF assms(2) _ that(3)] that(1,2) by (auto simp: nm_simps)
  show "\<exists>j. k \<in> owned ?m j"
    if "canonical_floor ?m \<le> k" "hm_get (live ?m) j = Some r" "k < rng_end r" "k \<notin> recycled ?m" for k j r
    using that keep[of k 0] live_end_ge[of inner j r]
    by (auto simp: live_aborted hm_simps split: if_splits dest: order.strict_trans2)
  show "\<exists>j. k \<in> owned ?m j"
    if "canonical_floor ?m \<le> k" "r \<in> recycled ?m" "k < r" "k \<notin> recycled ?m" for k r
    using that keep[of k r] owned_below_end[of r inner i] by (auto simp: recycled_aborted dest: order.strict_trans)
  show "hm_wf (live ?m)" using assms(1) by (simp add: live_aborted inv_wf)
qed

section \<open>The contract builder control relies on\<close>

locale nonce_lane =
  fixes inv :: "'s \<Rightarrow> bool"
    and own :: "'s \<Rightarrow> string \<Rightarrow> u64 set"
    and res :: "string \<Rightarrow> nat \<Rightarrow> ('e + u64) \<Rightarrow> 's \<Rightarrow> ('e + u64) \<times> 's"
    and abt :: "string \<Rightarrow> 's \<Rightarrow> 's"
    and cnf :: "string \<Rightarrow> 's \<Rightarrow> 's"
  assumes disjoint: "inv s \<Longrightarrow> n \<in> own s i \<Longrightarrow> n \<in> own s j \<Longrightarrow> i = j"
    and inv_res: "inv s \<Longrightarrow> inv (snd (res i c f s))"
    and res_err: "res i c f s = (Inl e, t) \<Longrightarrow> t = s"
    and res_own: "inv s \<Longrightarrow> res i c f s = (Inr n, t) \<Longrightarrow> own t i = {n..<sat_add n (word_of_nat c)}"
    and res_others: "inv s \<Longrightarrow> res i c f s = (Inr n, t) \<Longrightarrow> j \<noteq> i \<Longrightarrow> own t j \<subseteq> own s j"
    and inv_abt: "inv s \<Longrightarrow> inv (abt i s)"
    and abt_own: "own (abt i s) j = (if j = i then {} else own s j)"
    and inv_cnf: "inv s \<Longrightarrow> inv (cnf i s)"
    and cnf_own: "own (cnf i s) j = (if j = i then {} else own s j)"
begin

lemma res_exclusive:
  "inv s \<Longrightarrow> res i c f s = (Inr n, t) \<Longrightarrow> j \<noteq> i \<Longrightarrow> own t i \<inter> own t j = {}"
  using disjoint[of t] inv_res[of s i c f] by auto

lemma res_abt_others: "inv s \<Longrightarrow> own (abt i (snd (res i c f s))) j \<subseteq> own s j"
  by (cases "res i c f s"; cases "fst (res i c f s)")
    (auto simp: abt_own dest: res_err res_others)

lemma inv_abort_all: "inv s \<Longrightarrow> inv (fold abt is s)"
  by (induction "is" arbitrary: s) (auto intro: inv_abt)

lemma abort_all_own: "own (fold abt is s) j = (if j \<in> set is then {} else own s j)"
  by (induction "is" arbitrary: s) (auto simp: abt_own)

lemma inv_confirm_all: "inv s \<Longrightarrow> inv (fold cnf is s)"
  by (induction "is" arbitrary: s) (auto intro: inv_cnf)

lemma confirm_all_own: "own (fold cnf is s) j = (if j \<in> set is then {} else own s j)"
  by (induction "is" arbitrary: s) (auto simp: cnf_own)

end

interpretation nl: nonce_lane nm_inv owned reserve release_aborted release_confirmed
  by unfold_locales
    (auto simp: owned_aborted owned_confirmed inv_reserve inv_aborted inv_confirmed reserve_owned(1)
      dest: inv_owned_unique reserve_Inl subsetD[OF reserve_owned(2)] split: if_splits)

section \<open>Sequences of operations\<close>

datatype nonce_op =
    OpReserve string nat "(coordinator_error, u64) result"
  | OpConfirm string
  | OpAbort string
  | OpReset

fun nonce_apply :: "nonce_op \<Rightarrow> nonce_inner \<Rightarrow> nonce_inner" where
  "nonce_apply (OpReserve i c f) inner = snd (reserve i c f inner)"
| "nonce_apply (OpConfirm i) inner = release_confirmed i inner"
| "nonce_apply (OpAbort i) inner = release_aborted i inner"
| "nonce_apply OpReset inner = nonce_reset inner"

lemma inv_apply: "nm_inv inner \<Longrightarrow> nm_inv (nonce_apply op inner)"
  by (cases op) (auto intro: inv_reserve inv_confirmed inv_aborted inv_reset)

lemma inv_fold: "nm_inv inner \<Longrightarrow> nm_inv (fold nonce_apply ops inner)"
  by (induction ops arbitrary: inner) (auto intro: inv_apply)

lemma floor_apply: "op \<noteq> OpReset \<Longrightarrow> canonical_floor inner \<le> canonical_floor (nonce_apply op inner)"
  by (cases op)
    (auto simp: reserve_def Let_def claim_range_def merge_canonical_def release_confirmed_def
      release_aborted_def split: sum.splits option.splits)

lemma floor_fold:
  "OpReset \<notin> set ops \<Longrightarrow> canonical_floor inner \<le> canonical_floor (fold nonce_apply ops inner)"
proof (induction ops arbitrary: inner)
  case (Cons op ops)
  then have "canonical_floor inner \<le> canonical_floor (nonce_apply op inner)"
    by (intro floor_apply) auto
  then show ?case using Cons.IH[of "nonce_apply op inner"] Cons.prems by simp
qed simp

lemma reserve_start_floor: "fst (reserve i c f inner) = Inr st \<Longrightarrow> canonical_floor inner \<le> st"
  using start_nonce_ge_floor[of inner _ c] by (auto simp: reserve_def Let_def split: sum.splits)

text \<open>
  A lane in use: a reservation is only made for an instance that holds none.
\<close>

inductive lane_step :: "nonce_inner \<Rightarrow> nonce_inner \<Rightarrow> bool" where
  "hm_get (live s) i = None \<Longrightarrow> lane_step s (snd (reserve i c f s))"
| "lane_step s (release_confirmed i s)"
| "lane_step s (release_aborted i s)"
| "lane_step s (nonce_reset s)"

interpretation ls: step_invariant "(=) nonce_new" lane_step "\<lambda>s. nm_inv s \<and> nm_gapless s"
proof
  show "nm_inv s \<and> nm_gapless s" if "nonce_new = s" for s using that[symmetric] by simp
  show "nm_inv t \<and> nm_gapless t" if "nm_inv s \<and> nm_gapless s" "lane_step s t" for s t
    using that(2,1)
    by (induction rule: lane_step.induct)
      (simp_all add: inv_reserve gapless_reserve inv_confirmed gapless_confirmed inv_aborted
        gapless_aborted nonce_reset_def)
qed

section \<open>Properties\<close>

text \<open>After any sequence of reserve, confirm, abort and reset operations, the reservations of
  different instances are disjoint, no reserved nonce is in the recycled pool, and every range is
  well formed.\<close>

lemma nonce_lane_safe: "nm_inv (fold nonce_apply ops nonce_new)"
  by (rule inv_fold) simp

text \<open>C5: a granted reservation is exactly the requested number of consecutive nonces, at or above
  both the stored floor and the fetched canonical nonce, and no other instance owns any of them,
  before or after.\<close>

theorem reserve_exclusive:
  assumes "nm_inv inner" "reserve i cnt (Inr canonical) inner = (Inr st, inner')"
    and "unat st + cnt < 2 ^ 64"
  shows "owned inner' i = {st..<st + word_of_nat cnt} \<and> card (owned inner' i) = cnt \<and>
    canonical \<le> st \<and> canonical_floor inner \<le> st \<and>
    (\<forall>j. j \<noteq> i \<longrightarrow> owned inner' j \<subseteq> owned inner j \<and> owned inner' j \<inter> owned inner' i = {})"
proof -
  have n: "unat (word_of_nat cnt :: u64) = cnt" using assms(3) by (simp add: unat_of_nat)
  then have sum: "unat (st + word_of_nat cnt) = unat st + cnt"
    using assms(3) by (simp add: unat_word_ariths)
  then have "sat_add st (word_of_nat cnt) = st + word_of_nat cnt"
    using n assms(3) by (simp add: sat_add_unat word_unat_eq_iff)
  then have own: "owned inner' i = {st..<st + word_of_nat cnt}"
    using nl.res_own[OF assms(1,2)] by simp
  moreover have "max (canonical_floor inner) canonical \<le> st"
    using assms(2) start_nonce_ge_floor by (auto elim: reserve_Inr)
  moreover have "\<forall>j. j \<noteq> i \<longrightarrow> owned inner' j \<subseteq> owned inner j \<and> owned inner' j \<inter> owned inner' i = {}"
    using nl.res_others[OF assms(1,2)] nl.res_exclusive[OF assms(1,2)] by blast
  ultimately show ?thesis using sum by (simp add: card_u64_interval)
qed

theorem reserve_exclusive_witness:
  "owned (snd (reserve ''b'' 2 (Inr 7) (snd (reserve ''a'' 3 (Inr 7) nonce_new)))) ''b'' = {10..<12}"
proof -
  have r: "reserve ''b'' 2 (Inr 7) (snd (reserve ''a'' 3 (Inr 7) nonce_new)) =
    (Inr 10, snd (reserve ''b'' 2 (Inr 7) (snd (reserve ''a'' 3 (Inr 7) nonce_new))))"
    by code_simp
  have "nm_inv (snd (reserve ''a'' 3 (Inr 7) nonce_new))" by (simp add: inv_reserve)
  from reserve_exclusive[OF this r] show ?thesis by simp
qed



text \<open>A nonce whose reservation was confirmed is never handed out again until a rollback
  resets the lane: every later reservation starts above it.\<close>

lemma confirmed_never_reissued:
  assumes "n \<in> owned inner i" "OpReset \<notin> set ops"
    and "fst (reserve j c f (fold nonce_apply ops (release_confirmed i inner))) = Inr st"
  shows "n < st"
proof -
  have "n < canonical_floor (release_confirmed i inner)"
    using assms(1) by (auto simp: owned_def range_set_def release_confirmed_def less_max_iff_disj split: option.splits)
  also have "\<dots> \<le> canonical_floor (fold nonce_apply ops (release_confirmed i inner))"
    using assms(2) by (rule floor_fold)
  also have "\<dots> \<le> st" using assms(3) by (rule reserve_start_floor)
  finally show ?thesis .
qed

lemma confirmed_never_reissued_example:
  "let a = snd (reserve ''a'' 2 (Inr 7) nonce_new);
       r = reserve ''b'' 1 (Inr 3) (fold nonce_apply [OpAbort ''b''] (release_confirmed ''a'' a))
   in 8 \<in> owned a ''a'' \<and> fst r = Inr 9 \<and> (8 :: u64) < 9"
proof -
  let ?a = "snd (reserve ''a'' 2 (Inr 7) nonce_new)"
  have own: "8 \<in> owned ?a ''a''" by code_simp
  moreover have st: "fst (reserve ''b'' 1 (Inr 3)
      (fold nonce_apply [OpAbort ''b''] (release_confirmed ''a'' ?a))) = Inr 9"
    by code_simp
  moreover have "(8 :: u64) < 9" by (rule confirmed_never_reissued[OF own _ st]) simp
  ultimately show ?thesis by (simp add: Let_def)
qed

text \<open>The nonces of an aborted reservation are reissued: when the aborted range lies at or
  above the floor and below every recycled nonce, the next single reservation gets its first
  nonce.\<close>

lemma aborted_nonce_reissued:
  assumes "hm_get (live inner) i = Some r" "rng_start r < rng_end r"
    and "canonical_floor inner \<le> rng_start r" "canonical \<le> rng_start r"
    and "\<forall>m \<in> recycled inner. rng_start r \<le> m"
  shows "fst (reserve j 1 (Inr canonical) (release_aborted i inner)) = Inr (rng_start r)"
proof -
  let ?m = "merge_canonical canonical (release_aborted i inner)"
  have "owned inner i = range_set r" using assms(1) by (simp add: owned_def)
  then have rec: "recycled ?m = {n \<in> recycled inner \<union> {n \<in> range_set r. canonical_floor inner \<le> n}.
      max (canonical_floor inner) canonical \<le> n}"
    by (simp add: merge_canonical_def Let_def recycled_aborted floor_aborted)
  then have mem: "rng_start r \<in> recycled ?m" using assms by (simp add: range_set_def)
  moreover have "\<forall>m \<in> recycled ?m. rng_start r \<le> m" using assms(5) rec by (auto simp: range_set_def)
  ultimately have "Min (recycled ?m) = rng_start r" by (intro Min_eqI) auto
  then have "first_recycled ?m = Some (rng_start r)" using mem by (auto simp: first_recycled_def)
  then show ?thesis by (simp add: reserve_def Let_def start_nonce_def)
qed

lemma aborted_nonce_reissued_example:
  "fst (reserve ''b'' 1 (Inr 7) (release_aborted ''a'' (snd (reserve ''a'' 2 (Inr 7) nonce_new)))) = Inr 7"
proof -
  let ?a = "snd (reserve ''a'' 2 (Inr 7) nonce_new)"
  have "hm_get (live ?a) ''a'' = Some \<lparr>rng_start = 7, rng_end = 9\<rparr>" "canonical_floor ?a \<le> 7" "recycled ?a = {}"
    by code_simp+
  then show ?thesis using aborted_nonce_reissued[of ?a "''a''" "\<lparr>rng_start = 7, rng_end = 9\<rparr>" 7 "''b''"] by simp
qed

end
