(* ===== verification/Mailbox_Matching.thy ===== *)
theory Mailbox_Matching
  imports Primitives
begin

text \<open>
  Mailbox keys and matching: \<open>mailbox/src/wire.rs\<close> (the session-id codec),
  \<open>mailbox/src/matching.rs\<close> (dependency and message keys, \<open>matches_dependency\<close>)
  and \<open>mailbox/src/queue.rs\<close> (the in-memory queue).  The locale \<open>byte_codec\<close> is the
  contract of a fixed-width byte encoding, interpreted for session ids and
  addresses; \<open>message_queue\<close> is the contract of a mailbox queue, interpreted on the
  in-memory one.
\<close>

section \<open>Wire codecs\<close>

definition session_id_bytes :: nat where
  "session_id_bytes = 32"

definition encode_session_id :: "u256 \<Rightarrow> bytes" where
  "encode_session_id session_id = be_bytes session_id_bytes (unat session_id)"

definition decode_session_id :: "bytes \<Rightarrow> u256 option" where
  "decode_session_id bs =
    (if length bs \<noteq> session_id_bytes then None else Some (word_of_nat (be_val bs)))"

text \<open>\<open>Address::as_slice\<close>, and the conversion of a byte slice to an address.\<close>

definition address_bytes :: "address \<Rightarrow> bytes" where
  "address_bytes a = be_bytes 20 (unat a)"

definition address_from_slice :: "bytes \<Rightarrow> address option" where
  "address_from_slice bs = (if length bs = 20 then Some (word_of_nat (be_val bs)) else None)"

locale byte_codec =
  fixes enc :: "'a \<Rightarrow> bytes"
    and dec :: "bytes \<Rightarrow> 'a option"
  assumes dec_iff: "dec bs = Some x \<longleftrightarrow> bs = enc x"
begin

lemma dec_enc [simp]: "dec (enc x) = Some x"
  by (simp add: dec_iff)

lemma enc_inject [simp]: "enc x = enc y \<longleftrightarrow> x = y"
  by (metis dec_enc option.inject)

lemma dec_None: "dec bs = None \<longleftrightarrow> bs \<notin> range enc"
  by (metis dec_iff option.collapse option.distinct(1) range_eqI rangeE)

end

lemma be_codec:
  assumes "LENGTH('a :: len) = 8 * n"
  shows "(length bs = n \<and> (word_of_nat (be_val bs) :: 'a word) = x) \<longleftrightarrow> bs = be_bytes n (unat x)"
proof -
  have pow: "(2 :: nat) ^ LENGTH('a) = 256 ^ n" using assms by (simp add: power_mult)
  have "unat (word_of_nat (be_val bs) :: 'a word) = be_val bs" if "length bs = n"
    using be_val_less[of bs] that pow by (simp add: unat_of_nat)
  moreover have "be_val (be_bytes n (unat x)) = unat x"
    using unat_bound[of x] pow by (simp add: be_val_be_bytes)
  ultimately show ?thesis using be_bytes_be_val[of bs] by auto
qed

interpretation sid: byte_codec encode_session_id decode_session_id
  by unfold_locales
    (auto simp: decode_session_id_def encode_session_id_def session_id_bytes_def
      be_codec[where 'a = 256 and n = 32, simplified, symmetric])

interpretation adr: byte_codec address_bytes address_from_slice
  by unfold_locales
    (auto simp: address_from_slice_def address_bytes_def
      be_codec[where 'a = 160 and n = 20, simplified, symmetric])

section \<open>Keys\<close>

record dependency_key =
  dk_source_chain_id :: u64
  dk_dest_chain_id :: u64
  dk_sender :: address
  dk_receiver :: address
  dk_session_id :: u256
  dk_label :: bytes

definition dependency_key_from :: "dependency \<Rightarrow> dependency_key" where
  "dependency_key_from dep =
    \<lparr>dk_source_chain_id = dep_source_chain_id dep, dk_dest_chain_id = dep_dest_chain_id dep,
     dk_sender = dep_sender dep, dk_receiver = dep_receiver dep,
     dk_session_id = dep_session_id dep, dk_label = dep_label dep\<rparr>"

record mailbox_message_key =
  mk_instance_id :: bytes
  mk_source_chain :: u64
  mk_destination_chain :: u64
  mk_sender :: bytes
  mk_receiver :: bytes
  mk_session_id :: bytes
  mk_label :: string

definition mailbox_message_key_from :: "mailbox_message \<Rightarrow> mailbox_message_key" where
  "mailbox_message_key_from msg =
    \<lparr>mk_instance_id = msg_instance_id msg, mk_source_chain = msg_source_chain msg,
     mk_destination_chain = msg_destination_chain msg, mk_sender = msg_sender msg,
     mk_receiver = msg_receiver msg, mk_session_id = msg_session_id msg, mk_label = msg_label msg\<rparr>"

definition matches_dependency :: "mailbox_message \<Rightarrow> dependency \<Rightarrow> bool" where
  "matches_dependency msg dep =
    (if msg_source_chain msg \<noteq> dep_source_chain_id dep then False
     else if msg_destination_chain msg \<noteq> dep_dest_chain_id dep then False
     else if as_bytes (msg_label msg) \<noteq> dep_label dep then False
     else case address_from_slice (msg_sender msg) of
       None \<Rightarrow> False
     | Some sender \<Rightarrow>
         if sender \<noteq> dep_sender dep then False
         else case address_from_slice (msg_receiver msg) of
           None \<Rightarrow> False
         | Some receiver \<Rightarrow>
             if receiver \<noteq> dep_receiver dep then False
             else case decode_session_id (msg_session_id msg) of
               None \<Rightarrow> False
             | Some session_id \<Rightarrow>
                 if session_id \<noteq> dep_session_id dep then False else True)"

definition dependency_keys_equal :: "dependency \<Rightarrow> dependency \<Rightarrow> bool" where
  "dependency_keys_equal l r \<longleftrightarrow>
     dep_source_chain_id l = dep_source_chain_id r \<and> dep_dest_chain_id l = dep_dest_chain_id r \<and>
     dep_sender l = dep_sender r \<and> dep_receiver l = dep_receiver r \<and>
     dep_session_id l = dep_session_id r \<and> dep_label l = dep_label r"

definition contains_message :: "out_message list \<Rightarrow> out_message \<Rightarrow> bool" where
  "contains_message msgs msg \<longleftrightarrow> list_ex (\<lambda>m.
     out_source_chain_id m = out_source_chain_id msg \<and> out_dest_chain_id m = out_dest_chain_id msg \<and>
     out_label m = out_label msg \<and> out_sender m = out_sender msg \<and>
     out_receiver m = out_receiver msg \<and> out_session_id m = out_session_id msg) msgs"

lemma keys_equal_iff: "dependency_keys_equal l r \<longleftrightarrow> dependency_key_from l = dependency_key_from r"
  by (auto simp: dependency_keys_equal_def dependency_key_from_def)

text \<open>The one wire key a dependency accepts: all six fields fixed.\<close>

definition accepts :: "dependency \<Rightarrow> mailbox_message \<Rightarrow> bool" where
  "accepts dep msg \<longleftrightarrow>
     msg_source_chain msg = dep_source_chain_id dep \<and> msg_destination_chain msg = dep_dest_chain_id dep \<and>
     msg_sender msg = address_bytes (dep_sender dep) \<and> msg_receiver msg = address_bytes (dep_receiver dep) \<and>
     msg_session_id msg = encode_session_id (dep_session_id dep) \<and> as_bytes (msg_label msg) = dep_label dep"

lemma matches_iff: "matches_dependency msg dep \<longleftrightarrow> accepts dep msg"
  by (auto simp: matches_dependency_def accepts_def adr.dec_iff sid.dec_iff split: option.splits)

lemma accepts_same_key:
  "accepts d msg \<Longrightarrow> accepts d' msg \<longleftrightarrow> dependency_key_from d = dependency_key_from d'"
  by (auto simp: accepts_def dependency_key_from_def)

section \<open>The in-memory queue\<close>

type_synonym memory_queue = "(bytes, mailbox_message list) hmap"

definition queue_new :: memory_queue where
  "queue_new = []"

definition queue_record :: "mailbox_message \<Rightarrow> memory_queue \<Rightarrow> (mailbox_error, unit) result \<times> memory_queue" where
  "queue_record msg q =
    (Inr (), hm_insert (msg_instance_id msg)
      ((case hm_get q (msg_instance_id msg) of None \<Rightarrow> [] | Some ms \<Rightarrow> ms) @ [msg]) q)"

definition queue_pending :: "bytes \<Rightarrow> memory_queue \<Rightarrow> (mailbox_error, mailbox_message list) result" where
  "queue_pending instance_id q = Inr (case hm_get q instance_id of None \<Rightarrow> [] | Some ms \<Rightarrow> ms)"

locale message_queue =
  fixes new :: 'q
    and record_msg :: "mailbox_message \<Rightarrow> 'q \<Rightarrow> (mailbox_error, unit) result \<times> 'q"
    and pend :: "bytes \<Rightarrow> 'q \<Rightarrow> (mailbox_error, mailbox_message list) result"
  assumes pend_new: "pend i new = Inr []"
    and record_ok: "fst (record_msg m q) = Inr ()"
    and pend_record: "pend i q = Inr ms \<Longrightarrow>
      pend i (snd (record_msg m q)) = Inr (if msg_instance_id m = i then ms @ [m] else ms)"
begin

lemma pend_fold:
  "pend i q = Inr ms \<Longrightarrow>
    pend i (fold (\<lambda>m q. snd (record_msg m q)) xs q) = Inr (ms @ filter (\<lambda>m. msg_instance_id m = i) xs)"
  by (induction xs arbitrary: q ms) (auto simp: pend_record)

lemma pend_all: "pend i (fold (\<lambda>m q. snd (record_msg m q)) xs new) = Inr (filter (\<lambda>m. msg_instance_id m = i) xs)"
  using pend_fold[OF pend_new] by simp

end

interpretation mq: message_queue queue_new queue_record queue_pending
  by unfold_locales
    (auto simp: queue_new_def queue_record_def queue_pending_def hm_simps split: option.splits)

section \<open>Properties\<close>

text \<open>The session-id codec is a bijection between 256-bit values and 32-byte strings: decoding
  succeeds on exactly the encodings and inverts them.\<close>

lemma session_id_roundtrip: "decode_session_id bs = Some x \<longleftrightarrow> bs = encode_session_id x"
  by (rule sid.dec_iff)

text \<open>A message that satisfies one dependency satisfies another exactly when the two have the
  same six-field key, so a delivered message can never be credited to a different mailbox entry.\<close>

lemma matches_dependency_key:
  assumes "matches_dependency msg d"
  shows "matches_dependency msg d' \<longleftrightarrow> dependency_keys_equal d d'"
  using assms accepts_same_key by (simp add: matches_iff keys_equal_iff)

definition demo_dependency :: dependency where
  "demo_dependency = \<lparr>dep_source_chain_id = 1, dep_dest_chain_id = 2, dep_sender = 3, dep_receiver = 4,
     dep_label = as_bytes ''SEND'', dep_data = None, dep_session_id = 9\<rparr>"

definition demo_message :: mailbox_message where
  "demo_message = \<lparr>msg_instance_id = [1], msg_source_chain = 1, msg_destination_chain = 2,
     msg_sender = address_bytes 3, msg_receiver = address_bytes 4, msg_label = ''SEND'',
     msg_payload = [5], msg_session_id = encode_session_id 9\<rparr>"

lemma demo_matches: "matches_dependency demo_message demo_dependency"
  by (simp add: matches_iff accepts_def demo_message_def demo_dependency_def)

lemma matches_dependency_key_example:
  "matches_dependency demo_message (demo_dependency\<lparr>dep_data := Some [7]\<rparr>) \<and>
   \<not> matches_dependency demo_message (demo_dependency\<lparr>dep_receiver := 3\<rparr>)"
  unfolding matches_dependency_key[OF demo_matches]
  by (simp add: dependency_keys_equal_def demo_dependency_def)

end
