(* ===== verification/Overrides.thy ===== *)
theory Overrides
  imports Mailbox_Matching
begin

text \<open>
  State overrides, \<open>mailbox/src/overrides.rs\<close>: merging of override sets, the
  storage layout of a mailbox entry, and the overrides that make fulfilled
  dependencies visible to a simulation.

  Two abstract readings specify the code.  \<open>storage_view\<close> is the storage a node
  sees under an override set; merging is shown to be composition of these views.
  \<open>sol_read_bytes\<close> reads a \<open>bytes\<close> value by the Solidity storage layout; the slots the
  code writes are shown to read back as the delivered payload.  Keccak is a
  parameter, the field of \<open>externals\<close>.
\<close>

section \<open>Merging\<close>

definition insert_all :: "slot_map \<Rightarrow> slot_map \<Rightarrow> slot_map" where
  "insert_all diff m = fold (\<lambda>(k, v) m. hm_insert k v m) diff m"

definition merge_scalars :: "account_override \<Rightarrow> account_override \<Rightarrow> account_override" where
  "merge_scalars overlay_acct base_acct =
    (let a = (if acct_nonce overlay_acct \<noteq> None
              then base_acct\<lparr>acct_nonce := acct_nonce overlay_acct\<rparr> else base_acct);
         a = (if acct_balance overlay_acct \<noteq> None
              then a\<lparr>acct_balance := acct_balance overlay_acct\<rparr> else a)
     in if acct_code overlay_acct \<noteq> None then a\<lparr>acct_code := acct_code overlay_acct\<rparr> else a)"

definition merge_storage :: "account_override \<Rightarrow> account_override \<Rightarrow> account_override" where
  "merge_storage overlay_acct base_acct =
    (case acct_state overlay_acct of
      Some overlay_state \<Rightarrow> base_acct\<lparr>acct_state := Some overlay_state, acct_state_diff := None\<rparr>
    | None \<Rightarrow>
        (case acct_state_diff overlay_acct of
          None \<Rightarrow> base_acct
        | Some overlay_diff \<Rightarrow>
            (case acct_state base_acct of
              Some base_state \<Rightarrow> base_acct\<lparr>acct_state := Some (insert_all overlay_diff base_state)\<rparr>
            | None \<Rightarrow>
                (let base_diff = (case acct_state_diff base_acct of None \<Rightarrow> [] | Some d \<Rightarrow> d)
                 in base_acct\<lparr>acct_state_diff := Some (insert_all overlay_diff base_diff)\<rparr>))))"

definition merge_overrides :: "state_override \<Rightarrow> state_override \<Rightarrow> state_override" where
  "merge_overrides base overlay =
    fold (\<lambda>(addr, overlay_acct) base.
      (case hm_get base addr of
        Some base_acct \<Rightarrow> hm_insert addr (merge_scalars overlay_acct (merge_storage overlay_acct base_acct)) base
      | None \<Rightarrow> hm_insert addr overlay_acct base)) overlay base"

definition merge_storage_owned :: "account_override \<Rightarrow> account_override \<Rightarrow> account_override" where
  "merge_storage_owned overlay_acct base_acct =
    (case acct_state overlay_acct of
      Some overlay_state \<Rightarrow> base_acct\<lparr>acct_state := Some overlay_state, acct_state_diff := None\<rparr>
    | None \<Rightarrow>
        (case acct_state_diff overlay_acct of
          None \<Rightarrow> base_acct
        | Some overlay_diff \<Rightarrow>
            (case acct_state base_acct of
              Some base_state \<Rightarrow> base_acct\<lparr>acct_state := Some (insert_all overlay_diff base_state)\<rparr>
            | None \<Rightarrow>
                (case acct_state_diff base_acct of
                  Some base_diff \<Rightarrow> base_acct\<lparr>acct_state_diff := Some (insert_all overlay_diff base_diff)\<rparr>
                | None \<Rightarrow> base_acct\<lparr>acct_state_diff := Some overlay_diff\<rparr>))))"

definition merge_overrides_owned :: "state_override \<Rightarrow> state_override \<Rightarrow> state_override" where
  "merge_overrides_owned base overlay =
    fold (\<lambda>(addr, overlay_acct) base.
      (case hm_get base addr of
        Some base_acct \<Rightarrow>
          hm_insert addr (merge_scalars overlay_acct (merge_storage_owned overlay_acct base_acct)) base
      | None \<Rightarrow> hm_insert addr overlay_acct base)) overlay base"

section \<open>Storage layout of a mailbox entry\<close>

definition inbox_mapping_slot :: u64 where
  "inbox_mapping_slot = 5"

definition created_keys_mapping_slot :: u64 where
  "created_keys_mapping_slot = 7"

text \<open>\<open>U256::from\<close> of a \<open>u64\<close>, as 32 bytes.\<close>

definition u64_be32 :: "u64 \<Rightarrow> bytes" where
  "u64_be32 x = be_bytes 32 (unat x)"

definition word_be32 :: "u256 \<Rightarrow> bytes" where
  "word_be32 x = be_bytes 32 (unat x)"

definition be32_word :: "bytes \<Rightarrow> u256" where
  "be32_word bs = word_of_nat (be_val bs)"

definition mapping_slot :: "externals \<Rightarrow> u256 \<Rightarrow> u64 \<Rightarrow> u256" where
  "mapping_slot X key slot = keccak256 X (word_be32 key @ u64_be32 slot)"

definition encode_short_bytes :: "bytes \<Rightarrow> u256" where
  "encode_short_bytes data =
    (let len = min (length data) 31
     in be32_word (take len data @ replicate (31 - len) 0 @ [word_of_nat len * 2]))"

function chunks :: "nat \<Rightarrow> 'a list \<Rightarrow> 'a list list" where
  "chunks n xs = (if xs = [] \<or> n = 0 then [] else take n xs # chunks n (drop n xs))"
  by auto
termination by (relation "measure (length \<circ> snd)") auto

declare chunks.simps [simp del]

definition pad32 :: "bytes \<Rightarrow> u256" where
  "pad32 chunk = be32_word (chunk @ replicate (32 - length chunk) 0)"

definition apply_bytes_to_state_diff :: "externals \<Rightarrow> slot_map \<Rightarrow> u256 \<Rightarrow> bytes \<Rightarrow> slot_map" where
  "apply_bytes_to_state_diff X state_diff slot data =
    (if length data \<le> 31 then hm_insert slot (encode_short_bytes data) state_diff
     else
       let len_word = (word_of_nat (length data) :: u256) * 2 + 1;
           state_diff = hm_insert slot len_word state_diff;
           base_slot = keccak256 X (word_be32 slot)
       in fold (\<lambda>(i, chunk) sd. hm_insert (base_slot + word_of_nat i) (pad32 chunk) sd)
            (enumerate 0 (chunks 32 data)) state_diff)"

definition mailbox_key :: "externals \<Rightarrow> u64 \<Rightarrow> dependency \<Rightarrow> u256" where
  "mailbox_key X chain_id dep =
    keccak256 X (u64_be32 (dep_source_chain_id dep) @ u64_be32 chain_id @ address_bytes (dep_sender dep)
      @ address_bytes (dep_receiver dep) @ word_be32 (dep_session_id dep) @ dep_label dep)"

definition apply_dependency :: "externals \<Rightarrow> u64 \<Rightarrow> dependency \<Rightarrow> slot_map \<Rightarrow> slot_map" where
  "apply_dependency X chain_id dep state_diff =
    (if dep_dest_chain_id dep \<noteq> chain_id then state_diff
     else case dep_data dep of
       None \<Rightarrow> state_diff
     | Some data \<Rightarrow>
         (let key = mailbox_key X chain_id dep;
              inbox_slot = mapping_slot X key inbox_mapping_slot;
              created_slot = mapping_slot X key created_keys_mapping_slot;
              state_diff = apply_bytes_to_state_diff X state_diff inbox_slot data
          in hm_insert created_slot 1 state_diff))"

definition build_mailbox_state_overrides ::
  "externals \<Rightarrow> u64 \<Rightarrow> address \<Rightarrow> dependency list \<Rightarrow> state_override option" where
  "build_mailbox_state_overrides X chain_id mailbox_address deps =
    (let state_diff = fold (apply_dependency X chain_id) deps []
     in if state_diff = [] then None
        else Some (hm_insert mailbox_address (account_override_default\<lparr>acct_state_diff := Some state_diff\<rparr>) []))"

section \<open>Storage views\<close>

text \<open>What a node reads under an override set, on top of the storage below it.\<close>

definition account_view :: "account_override \<Rightarrow> (u256 \<Rightarrow> u256) \<Rightarrow> u256 \<Rightarrow> u256" where
  "account_view a below slot =
    (case acct_state a of
      Some m \<Rightarrow> (case hm_get m slot of None \<Rightarrow> 0 | Some v \<Rightarrow> v)
    | None \<Rightarrow>
        (case acct_state_diff a of
          None \<Rightarrow> below slot
        | Some d \<Rightarrow> (case hm_get d slot of None \<Rightarrow> below slot | Some v \<Rightarrow> v)))"

definition storage_view :: "state_override \<Rightarrow> (address \<Rightarrow> u256 \<Rightarrow> u256) \<Rightarrow> address \<Rightarrow> u256 \<Rightarrow> u256" where
  "storage_view so below addr =
    (case hm_get so addr of None \<Rightarrow> below addr | Some a \<Rightarrow> account_view a (below addr))"

definition acct_wf :: "account_override \<Rightarrow> bool" where
  "acct_wf a \<longleftrightarrow> (\<forall>m. acct_state a = Some m \<longrightarrow> hm_wf m) \<and> (\<forall>m. acct_state_diff a = Some m \<longrightarrow> hm_wf m)"

definition override_wf :: "state_override \<Rightarrow> bool" where
  "override_wf so \<longleftrightarrow> hm_wf so \<and> (\<forall>a acct. hm_get so a = Some acct \<longrightarrow> acct_wf acct)"

lemma map_of_insert_all: "hm_wf d \<Longrightarrow> map_of (insert_all d m) k = (map_of m ++ map_of d) k"
proof (induction d arbitrary: m)
  case Nil
  then show ?case by (simp add: insert_all_def)
next
  case (Cons p d)
  then show ?case
    by (cases p) (auto simp: insert_all_def hm_simps map_add_def split: option.splits)
qed

lemma wf_insert_all [simp]: "hm_wf m \<Longrightarrow> hm_wf (insert_all d m)"
  by (induction d arbitrary: m) (auto simp: insert_all_def)

lemma insert_fresh: "map_of m k = None \<Longrightarrow> hm_insert k v m = m @ [(k, v)]"
  by (induction m) (auto split: if_splits)

lemma insert_all_append: "hm_wf (m @ d) \<Longrightarrow> insert_all d m = m @ d"
proof (induction d arbitrary: m)
  case (Cons p d)
  obtain k v where p: "p = (k, v)" by force
  have "map_of m k = None" using Cons.prems p by (auto simp: hm_wf_def map_of_eq_None_iff)
  then have "insert_all (p # d) m = insert_all d (m @ [(k, v)])"
    using p by (simp add: insert_all_def insert_fresh)
  then show ?case using Cons p by simp
qed (simp add: insert_all_def)

lemma insert_all_empty: "hm_wf d \<Longrightarrow> insert_all d [] = d"
  using insert_all_append[of "[]" d] by simp

lemma merge_scalars_storage [simp]:
  "acct_state (merge_scalars o' a) = acct_state a"
  "acct_state_diff (merge_scalars o' a) = acct_state_diff a"
  by (simp_all add: merge_scalars_def Let_def)

lemma merge_account_view:
  assumes "acct_wf o'"
  shows "account_view (merge_scalars o' (merge_storage o' a)) below slot
    = account_view o' (account_view a below) slot"
  using assms
  by (auto simp: account_view_def merge_storage_def acct_wf_def map_of_insert_all map_add_def
      split: option.splits)

lemma merge_storage_owned_eq: "acct_wf o' \<Longrightarrow> merge_storage_owned o' a = merge_storage o' a"
  by (auto simp: merge_storage_owned_def merge_storage_def acct_wf_def insert_all_empty split: option.splits)

lemma override_wf_Cons:
  "override_wf ((a, acct) # so) \<longleftrightarrow> hm_get so a = None \<and> acct_wf acct \<and> override_wf so"
  by (auto simp: override_wf_def split: if_splits)

lemma merge_overrides_Cons:
  "merge_overrides base ((addr, o') # overlay) =
    merge_overrides (hm_insert addr (case hm_get base addr of
      Some a \<Rightarrow> merge_scalars o' (merge_storage o' a) | None \<Rightarrow> o') base) overlay"
  by (simp add: merge_overrides_def split: option.split)

lemma merge_view:
  "override_wf overlay \<Longrightarrow>
    storage_view (merge_overrides base overlay) below = storage_view overlay (storage_view base below)"
proof (induction overlay arbitrary: base)
  case Nil
  then show ?case by (simp add: merge_overrides_def storage_view_def fun_eq_iff)
next
  case (Cons p overlay)
  obtain addr o' where p: "p = (addr, o')" by force
  let ?acct = "case hm_get base addr of Some a \<Rightarrow> merge_scalars o' (merge_storage o' a) | None \<Rightarrow> o'"
  have wf: "hm_get overlay addr = None" "acct_wf o'" "override_wf overlay"
    using Cons.prems p by (auto simp: override_wf_Cons)
  have here: "storage_view (hm_insert addr ?acct base) below
    = (storage_view base below)(addr := account_view o' (storage_view base below addr))"
    using merge_account_view[OF wf(2)]
    by (auto simp: storage_view_def hm_simps fun_eq_iff split: option.splits)
  have "storage_view (merge_overrides base (p # overlay)) below
    = storage_view overlay ((storage_view base below)(addr := account_view o' (storage_view base below addr)))"
    unfolding p merge_overrides_Cons Cons.IH[OF wf(3)] here by (rule refl)
  also have "\<dots> = storage_view (p # overlay) (storage_view base below)"
    using wf(1) p by (auto simp: storage_view_def fun_eq_iff split: option.splits)
  finally show ?case .
qed

lemma merge_scalars_wf: "acct_wf (merge_scalars o' a) \<longleftrightarrow> acct_wf a"
  by (simp add: acct_wf_def)

lemma merge_storage_wf: "acct_wf o' \<Longrightarrow> acct_wf a \<Longrightarrow> acct_wf (merge_storage o' a)"
  by (auto simp: acct_wf_def merge_storage_def Let_def split: option.splits)

lemma merge_wf: "override_wf base \<Longrightarrow> override_wf overlay \<Longrightarrow> override_wf (merge_overrides base overlay)"
proof (induction overlay arbitrary: base)
  case (Cons p overlay)
  obtain addr o' where p: "p = (addr, o')" by force
  have wf: "acct_wf o'" "override_wf overlay" using Cons.prems p by (auto simp: override_wf_Cons)
  have "override_wf (hm_insert addr (case hm_get base addr of
      Some a \<Rightarrow> merge_scalars o' (merge_storage o' a) | None \<Rightarrow> o') base)"
    using Cons.prems(1) wf(1)
    by (auto simp: override_wf_def hm_simps merge_scalars_wf merge_storage_wf split: option.splits)
  then show ?case using Cons.IH wf(2) p by (simp add: merge_overrides_Cons)
qed (simp add: merge_overrides_def)

section \<open>Reading a mailbox entry back\<close>

text \<open>The Solidity layout of a \<open>bytes\<close> value at a storage slot.\<close>

definition sol_read_bytes :: "externals \<Rightarrow> (u256 \<Rightarrow> u256) \<Rightarrow> u256 \<Rightarrow> bytes" where
  "sol_read_bytes X rd slot =
    (if even (unat (rd slot))
     then take (unat (last (word_be32 (rd slot))) div 2) (word_be32 (rd slot))
     else
       let len = unat (rd slot) div 2
       in take len (concat (map (\<lambda>i. word_be32 (rd (keccak256 X (word_be32 slot) + word_of_nat i)))
            [0..<(len + 31) div 32])))"

lemma word_be32_be32 [simp]: "length bs = 32 \<Longrightarrow> word_be32 (be32_word bs) = bs"
proof -
  assume len: "length bs = 32"
  then have "decode_session_id bs = Some (be32_word bs)"
    by (simp add: decode_session_id_def session_id_bytes_def be32_word_def)
  then have "bs = encode_session_id (be32_word bs)" by (simp only: sid.dec_iff)
  then show ?thesis by (simp add: word_be32_def encode_session_id_def session_id_bytes_def)
qed

lemma even_be32_word:
  assumes "length bs = 31"
  shows "even (unat (be32_word (bs @ [b]))) \<longleftrightarrow> even (unat b)"
proof -
  have "be_val (bs @ [b]) < 2 ^ 256" using be_val_less[of "bs @ [b]"] assms by simp
  then have "unat (be32_word (bs @ [b])) = be_val bs * 256 + unat b"
    by (simp add: be32_word_def unat_of_nat be_val_snoc del: of_nat_add of_nat_mult)
  then show ?thesis by simp
qed

lemma sol_read_short:
  assumes "rd slot = encode_short_bytes data" "length data \<le> 31"
  shows "sol_read_bytes X rd slot = data"
proof -
  let ?b = "word_of_nat (length data) * 2 :: u8"
  let ?front = "data @ replicate (31 - length data) 0"
  have w: "rd slot = be32_word (?front @ [?b])"
    using assms by (simp add: encode_short_bytes_def Let_def)
  have "(word_of_nat (length data) * 2 :: u8) = word_of_nat (length data * 2)" by simp
  then have b: "unat ?b = length data * 2"
    using assms(2) by (simp add: unat_of_nat del: of_nat_mult)
  then have "even (unat (rd slot))" using w even_be32_word[of ?front ?b] assms(2) by simp
  moreover have "word_be32 (rd slot) = ?front @ [?b]" using w assms(2) by simp
  ultimately show ?thesis using b assms(2) by (simp add: sol_read_bytes_def)
qed

lemma chunks_Nil [simp]: "chunks n [] = []"
  by (simp add: chunks.simps)

lemma length_chunks:
  assumes "0 < n"
  shows "length (chunks n xs) = (length xs + (n - 1)) div n"
  using assms
proof (induction n xs rule: chunks.induct)
  case (1 n xs)
  show ?case
  proof (cases "xs = []")
    case True
    then show ?thesis using 1(2) by simp
  next
    case False
    then have len: "length (chunks n xs) = Suc ((length xs - n + (n - 1)) div n)"
      using 1 by (simp add: chunks.simps[of n xs])
    show ?thesis
    proof (cases "n \<le> length xs")
      case True
      then have "length xs + (n - 1) = (length xs - n + (n - 1)) + n" by simp
      also have "\<dots> div n = Suc ((length xs - n + (n - 1)) div n)"
        by (subst div_add_self2) (use 1(2) in simp_all)
      finally show ?thesis using len by simp
    next
      case nle: False
      have "0 < length xs" using False by simp
      then have "length xs + (n - 1) = (length xs - 1) + n" using 1(2) by linarith
      also have "\<dots> div n = Suc ((length xs - 1) div n)"
        by (subst div_add_self2) (use 1(2) in simp_all)
      finally show ?thesis using len nle 1(2) by simp
    qed
  qed
qed

lemma take_chunks_padded:
  "0 < n \<Longrightarrow> take (length xs) (concat (map (\<lambda>c. c @ replicate (n - length c) z) (chunks n xs))) = xs"
proof (induction n xs rule: chunks.induct)
  case (1 n xs)
  show ?case
  proof (cases "xs = []")
    case False
    then have "chunks n xs = take n xs # chunks n (drop n xs)" using 1(2) by (simp add: chunks.simps[of n xs])
    then show ?thesis using 1 False by (cases "n \<le> length xs") simp_all
  qed simp
qed

lemma chunk_length: "c \<in> set (chunks n xs) \<Longrightarrow> length c \<le> n"
proof (induction n xs rule: chunks.induct)
  case (1 n xs)
  then show ?case by (subst (asm) (2) chunks.simps) (auto split: if_splits)
qed

text \<open>The storage slots written for one value, and for one dependency.\<close>

definition bytes_writes :: "externals \<Rightarrow> u256 \<Rightarrow> bytes \<Rightarrow> slot_map" where
  "bytes_writes X slot data =
    (if length data \<le> 31 then [(slot, encode_short_bytes data)]
     else (slot, (word_of_nat (length data) :: u256) * 2 + 1)
       # map (\<lambda>(i, chunk). (keccak256 X (word_be32 slot) + word_of_nat i, pad32 chunk))
           (enumerate 0 (chunks 32 data)))"

definition entry_writes :: "externals \<Rightarrow> u64 \<Rightarrow> dependency \<Rightarrow> slot_map" where
  "entry_writes X chain_id dep =
    (if dep_dest_chain_id dep \<noteq> chain_id then []
     else case dep_data dep of
       None \<Rightarrow> []
     | Some data \<Rightarrow>
         bytes_writes X (mapping_slot X (mailbox_key X chain_id dep) inbox_mapping_slot) data
         @ [(mapping_slot X (mailbox_key X chain_id dep) created_keys_mapping_slot, 1)])"

lemma insert_all_appendD: "insert_all (a @ b) m = insert_all b (insert_all a m)"
  by (simp add: insert_all_def)

lemma insert_all_Cons: "insert_all ((k, v) # d) m = insert_all d (hm_insert k v m)"
  by (simp add: insert_all_def)

lemma insert_all_map: "insert_all (map f xs) m = fold (\<lambda>x. hm_insert (fst (f x)) (snd (f x))) xs m"
  by (simp add: insert_all_def fold_map comp_def case_prod_beta)

lemma apply_bytes_writes: "apply_bytes_to_state_diff X sd slot data = insert_all (bytes_writes X slot data) sd"
proof -
  have eq: "(\<lambda>(i, chunk). hm_insert (b + word_of_nat i) (pad32 chunk)) =
    (\<lambda>x. hm_insert (fst ((\<lambda>(i, chunk). (b + word_of_nat i, pad32 chunk)) x))
      (snd ((\<lambda>(i, chunk). (b + word_of_nat i, pad32 chunk)) x)))" for b :: u256
    by (auto simp: fun_eq_iff)
  show ?thesis
    by (simp add: apply_bytes_to_state_diff_def bytes_writes_def insert_all_Cons insert_all_map
        Let_def eq insert_all_def[of "[]"])
qed

lemma apply_dependency_writes: "apply_dependency X chain dep sd = insert_all (entry_writes X chain dep) sd"
  by (simp add: apply_dependency_def entry_writes_def apply_bytes_writes insert_all_appendD
      insert_all_Cons insert_all_def[of "[]"] Let_def split: option.split)

lemma fold_apply_dependency:
  "fold (apply_dependency X chain) deps sd = insert_all (concat (map (entry_writes X chain) deps)) sd"
  by (induction deps arbitrary: sd)
    (simp_all add: apply_dependency_writes insert_all_appendD insert_all_def[of "[]"])

lemma map_of_insert_all_other: "k \<notin> fst ` set d \<Longrightarrow> map_of (insert_all d m) k = map_of m k"
proof (induction d arbitrary: m)
  case (Cons p d)
  then show ?case by (cases p) (auto simp: insert_all_Cons hm_simps)
qed (simp add: insert_all_def)

lemma sol_read_long:
  assumes wf: "hm_wf (bytes_writes X slot data)" and len: "\<not> length data \<le> 31" "length data < 2 ^ 64"
    and rd: "\<And>k v. map_of (bytes_writes X slot data) k = Some v \<Longrightarrow> rd k = v"
  shows "sol_read_bytes X rd slot = data"
proof -
  let ?b = "keccak256 X (word_be32 slot)" and ?cs = "chunks 32 data"
  have "(slot, (word_of_nat (length data) :: u256) * 2 + 1) \<in> set (bytes_writes X slot data)"
    using len by (simp add: bytes_writes_def)
  then have "rd slot = word_of_nat (length data) * 2 + 1" using rd wf_map_of[OF wf] by blast
  also have "\<dots> = word_of_nat (length data * 2 + 1)" by simp
  finally have "rd slot = word_of_nat (length data * 2 + 1)" .
  moreover have "length data * 2 + 1 < 2 ^ LENGTH(256)" using len(2) by simp
  ultimately have w: "unat (rd slot) = length data * 2 + 1" by (metis unat_of_nat mod_less)
  have "word_be32 (rd (?b + word_of_nat i)) = ?cs ! i @ replicate (32 - length (?cs ! i)) 0"
    if "i < length ?cs" for i
  proof -
    have "(?b + word_of_nat i, pad32 (?cs ! i)) \<in> set (bytes_writes X slot data)"
      using len that by (auto simp: bytes_writes_def in_set_enumerate_eq intro!: rev_image_eqI[of "(i, ?cs ! i)"])
    then have "rd (?b + word_of_nat i) = pad32 (?cs ! i)" using rd wf_map_of[OF wf] by blast
    then show ?thesis using chunk_length[of "?cs ! i" 32 data] that by (simp add: pad32_def)
  qed
  then have "map (\<lambda>i. word_be32 (rd (?b + word_of_nat i))) [0..<length ?cs]
    = map (\<lambda>c. c @ replicate (32 - length c) 0) ?cs"
    by (intro nth_equalityI) auto
  moreover have "(length data + 31) div 32 = length ?cs" by (simp add: length_chunks)
  ultimately show ?thesis using w by (simp add: sol_read_bytes_def Let_def take_chunks_padded)
qed

lemma sol_read_writes:
  assumes "hm_wf (bytes_writes X slot data)" "length data < 2 ^ 64"
    and "\<And>k v. map_of (bytes_writes X slot data) k = Some v \<Longrightarrow> rd k = v"
  shows "sol_read_bytes X rd slot = data"
proof (cases "length data \<le> 31")
  case True
  then have "rd slot = encode_short_bytes data" using assms(3)[of slot] by (simp add: bytes_writes_def)
  then show ?thesis using True sol_read_short by blast
qed (use assms sol_read_long in blast)

lemma build_overrides_view:
  assumes "build_mailbox_state_overrides X chain mb deps = Some so"
  shows "storage_view so below mb k =
    (case map_of (fold (apply_dependency X chain) deps []) k of None \<Rightarrow> below mb k | Some v \<Rightarrow> v)"
proof -
  obtain sd where sd: "fold (apply_dependency X chain) deps [] = sd" by blast
  show ?thesis using assms
    by (auto simp: build_mailbox_state_overrides_def sd Let_def storage_view_def
        account_view_def account_override_default_def split: if_splits)
qed

lemma last_be_bytes: "0 < n \<Longrightarrow> last (xs @ be_bytes n x) = word_of_nat x"
  by (cases n) auto

section \<open>Properties\<close>

text \<open>Merging an overlay into a base override set is composition: under the merged set the node
  reads exactly what it reads under the overlay applied on top of the storage the base shows, for
  every account and slot, whatever mix of full replacements and diffs the two contain.\<close>

lemma merge_overrides_composes:
  assumes "override_wf overlay"
  shows "storage_view (merge_overrides base overlay) below = storage_view overlay (storage_view base below)"
  using assms by (rule merge_view)

lemma merge_overrides_composes_example:
  "storage_view (merge_overrides [(1, account_override_default\<lparr>acct_state := Some [(5, 50)]\<rparr>)]
      [(1, account_override_default\<lparr>acct_state_diff := Some [(6, 60)]\<rparr>)]) (\<lambda>a s. 9) 1 7 = 0"
  by (subst merge_overrides_composes)
    (simp_all add: override_wf_def acct_wf_def account_override_default_def storage_view_def account_view_def)

text \<open>The consuming merge is an optimisation of the borrowing one: on well-formed overlays both
  compute the same override set.\<close>

lemma merge_overrides_owned_eq:
  assumes "override_wf overlay"
  shows "merge_overrides_owned base overlay = merge_overrides base overlay"
  using assms
proof (induction overlay arbitrary: base)
  case (Cons p overlay)
  then show ?case
    by (cases p) (simp add: override_wf_Cons merge_overrides_def merge_overrides_owned_def
        merge_storage_owned_eq cong: option.case_cong split: option.split)
qed (simp add: merge_overrides_def merge_overrides_owned_def)

lemma merge_overrides_owned_eq_example:
  "merge_overrides_owned [(1, account_override_default)]
      [(1, account_override_default\<lparr>acct_state_diff := Some [(6, 60), (7, 70)]\<rparr>)]
   = [(1, account_override_default\<lparr>acct_state_diff := Some [(6, 60), (7, 70)]\<rparr>)]"
  by (subst merge_overrides_owned_eq)
    (simp_all add: override_wf_def acct_wf_def account_override_default_def merge_overrides_def
      merge_scalars_def merge_storage_def insert_all_def)

text \<open>C15: the overrides built for fulfilled dependencies make the mailbox contract see each delivered
  payload: for a dependency of the local chain that carries data, reading the inbox entry of its key
  by the Solidity layout returns the payload, short or long, and its created flag is one, provided
  the storage slots of the entry are distinct and no later dependency writes to them.\<close>

theorem mailbox_overrides_read_back:
  assumes "build_mailbox_state_overrides X chain mb (ds1 @ dep # ds2) = Some so"
    and "dep_dest_chain_id dep = chain" "dep_data dep = Some data" "length data < 2 ^ 64"
    and "hm_wf (entry_writes X chain dep)"
    and "fst ` set (entry_writes X chain dep) \<inter> fst ` set (concat (map (entry_writes X chain) ds2)) = {}"
  shows "let key = mailbox_key X chain dep; rd = storage_view so below mb in
    sol_read_bytes X rd (mapping_slot X key inbox_mapping_slot) = data \<and>
    rd (mapping_slot X key created_keys_mapping_slot) = 1"
proof -
  let ?ew = "entry_writes X chain dep" and ?key = "mailbox_key X chain dep"
  let ?inbox = "mapping_slot X ?key inbox_mapping_slot"
  let ?created = "mapping_slot X ?key created_keys_mapping_slot"
  define sd where "sd = fold (apply_dependency X chain) (ds1 @ dep # ds2) []"
  have ew: "?ew = bytes_writes X ?inbox data @ [(?created, 1)]" using assms(2,3) by (simp add: entry_writes_def)
  have so: "storage_view so below mb k = (case map_of sd k of None \<Rightarrow> below mb k | Some v \<Rightarrow> v)" for k
    unfolding sd_def by (rule build_overrides_view[OF assms(1)])
  have rd: "storage_view so below mb k = v" if "map_of ?ew k = Some v" for k v
  proof -
    have "k \<notin> fst ` set (concat (map (entry_writes X chain) ds2))"
      using that assms(6) by (force dest: map_of_SomeD)
    then have "map_of sd k = Some v"
      using that assms(5) by (simp add: sd_def fold_apply_dependency apply_dependency_writes insert_all_appendD
          map_of_insert_all_other map_of_insert_all map_add_def)
    then show ?thesis by (simp add: so)
  qed
  have "hm_wf (bytes_writes X ?inbox data)" using assms(5) ew by (simp add: hm_wf_def)
  moreover have "map_of ?ew k = Some v" if "map_of (bytes_writes X ?inbox data) k = Some v" for k v
    using that ew by (simp add: map_add_def)
  moreover have "map_of ?ew ?created = Some 1" using wf_map_of[OF assms(5)] ew by auto
  ultimately show ?thesis using sol_read_writes[OF _ assms(4)] rd by (simp add: Let_def)
qed

definition toy_externals :: externals where
  "toy_externals = \<lparr>hex_encode = \<lambda>bs. [], hex_decode = \<lambda>s. None, sha256 = \<lambda>bs. [],
     keccak256 = \<lambda>bs. word_of_nat (1000 * (unat (last bs) + 1)), show_chain_id = show_u64,
     show_period_id = show_u64, show_sequence = show_u64\<rparr>"

theorem mailbox_overrides_read_back_witness:
  "\<exists>so. build_mailbox_state_overrides toy_externals 2 6 [demo_dependency\<lparr>dep_data := Some (replicate 40 7)\<rparr>]
      = Some so \<and> sol_read_bytes toy_externals (storage_view so (\<lambda>a s. 0) 6) 6000 = replicate 40 7"
proof -
  let ?d = "demo_dependency\<lparr>dep_data := Some (replicate 40 7)\<rparr>"
  have slots: "mapping_slot toy_externals k 5 = 6000" "mapping_slot toy_externals k 7 = 8000" for k
    by (simp_all add: mapping_slot_def toy_externals_def u64_be32_def last_be_bytes)
  have base: "keccak256 toy_externals (word_be32 6000) = 113000"
    using last_be_bytes[of 32 "[]" 6000] by (simp add: toy_externals_def word_be32_def)
  have "length (chunks 32 (replicate 40 (7 :: u8))) = 2" by (simp add: length_chunks)
  then obtain a b where cs: "chunks 32 (replicate 40 (7 :: u8)) = [a, b]"
    by (auto simp: length_Suc_conv numeral_2_eq_2)
  have ew: "entry_writes toy_externals 2 ?d = [(6000, 81), (113000, pad32 a), (113001, pad32 b), (8000, 1)]"
    using cs by (simp add: entry_writes_def demo_dependency_def inbox_mapping_slot_def
        created_keys_mapping_slot_def slots bytes_writes_def base)
  have "\<exists>so. build_mailbox_state_overrides toy_externals 2 6 ([] @ ?d # []) = Some so"
    by (simp add: build_mailbox_state_overrides_def fold_apply_dependency apply_dependency_writes ew
        insert_all_def Let_def)
  then obtain so where so: "build_mailbox_state_overrides toy_externals 2 6 ([] @ ?d # []) = Some so" by blast
  have "sol_read_bytes toy_externals (storage_view so (\<lambda>a s. 0) 6) 6000 = replicate 40 7"
    using mailbox_overrides_read_back[OF so, of "replicate 40 7" "\<lambda>a s. 0"] ew
    by (simp add: demo_dependency_def Let_def slots inbox_mapping_slot_def)
  then show ?thesis using so by auto
qed

end
