(* ===== verification/Coordinator_State.thy ===== *)
theory Coordinator_State
  imports Publisher_Period Nonce_Manager Overrides
begin

text \<open>
  The coordinator's data: \<open>coordinator/src/model/pending_xt.rs\<close>, \<open>ordering.rs\<close>,
  \<open>xt_status.rs\<close>, and \<open>CoordinatorState\<close> with its orphan mailbox buffer from
  \<open>coordinator/src/coordinator.rs\<close>, together with the helpers of
  \<open>pipeline/submission.rs\<close> and \<open>pipeline/delivery.rs\<close>.

  An \<open>Instant\<close> is a natural number, the reading of the clock at the call.  A
  one-shot sender waiting for an instance id is a number that names the waiting
  submission.  The invariant \<open>coord_inv\<close> is stated here and shown for every
  locked section in the theories that follow.
\<close>

section \<open>Pending XTs\<close>

record pending_xt =
  xt_id :: instance_id
  xt_instance_id :: bytes
  xt_period_id :: u64
  xt_sequence_num :: u64
  xt_raw_txs :: raw_txs
  xt_created_at :: nat
  xt_simulated_at :: "nat option"
  xt_decided_at :: "nat option"
  xt_confirmed_at :: "nat option"
  xt_decision :: "bool option"
  xt_vote_sent :: bool
  xt_local_vote :: "bool option"
  xt_peer_votes :: "(u64, bool) hmap"
  xt_locked_chains :: "u64 set"
  xt_origin_chain :: "u64 option"
  xt_origin_seq :: u64
  xt_pending_mailbox :: "mailbox_message list"
  xt_sent_mailbox_keys :: "mailbox_message_key set"
  xt_dependencies :: "dependency list"
  xt_dep_keys :: "dependency_key set"
  xt_fulfilled_deps :: "dependency list"
  xt_fulfilled_dep_keys :: "dependency_key set"
  xt_outbound_messages :: "out_message list"
  xt_sender_nonces :: "(u64, address \<times> u64) hmap"

definition pending_xt_new :: "nat \<Rightarrow> instance_id \<Rightarrow> bytes \<Rightarrow> pending_xt" where
  "pending_xt_new now i raw =
    \<lparr>xt_id = i, xt_instance_id = raw, xt_period_id = 0, xt_sequence_num = 0, xt_raw_txs = [],
     xt_created_at = now, xt_simulated_at = None, xt_decided_at = None, xt_confirmed_at = None,
     xt_decision = None, xt_vote_sent = False, xt_local_vote = None, xt_peer_votes = [],
     xt_locked_chains = {}, xt_origin_chain = None, xt_origin_seq = 0, xt_pending_mailbox = [],
     xt_sent_mailbox_keys = {}, xt_dependencies = [], xt_dep_keys = {}, xt_fulfilled_deps = [],
     xt_fulfilled_dep_keys = {}, xt_outbound_messages = [], xt_sender_nonces = []\<rparr>"

definition is_decided :: "pending_xt \<Rightarrow> bool" where
  "is_decided xt \<longleftrightarrow> xt_decision xt \<noteq> None"

definition is_committed :: "pending_xt \<Rightarrow> bool" where
  "is_committed xt \<longleftrightarrow> xt_decision xt = Some True"

definition record_decision :: "nat \<Rightarrow> bool \<Rightarrow> pending_xt \<Rightarrow> pending_xt" where
  "record_decision now d xt = xt\<lparr>xt_decision := Some d, xt_decided_at := Some now\<rparr>"

text \<open>Strings compare by their UTF-8 bytes, which is the order of \<open>string\<close>.\<close>

definition xt_less :: "instance_id \<Rightarrow> pending_xt \<Rightarrow> instance_id \<Rightarrow> pending_xt \<Rightarrow> bool" where
  "xt_less a_id a b_id b =
    (if xt_period_id a \<noteq> xt_period_id b then xt_period_id a < xt_period_id b
     else if xt_sequence_num a \<noteq> xt_sequence_num b then xt_sequence_num a < xt_sequence_num b
     else a_id < b_id)"

record xt_status_response =
  resp_instance_id :: string
  resp_status :: xt_status
  resp_decision :: "bool option"

definition determine_xt_status :: "pending_xt \<Rightarrow> xt_status" where
  "determine_xt_status xt =
    (case xt_decision xt of
      Some d \<Rightarrow> if d then (if xt_confirmed_at xt \<noteq> None then Committed else Voted) else Aborted
    | None \<Rightarrow>
        if xt_vote_sent xt then Voted
        else if xt_simulated_at xt \<noteq> None then
          (if xt_dependencies xt \<noteq> [] \<and> length (xt_fulfilled_deps xt) < length (xt_dependencies xt)
           then WaitingCirc else Simulated)
        else if xt_locked_chains xt \<noteq> {} then Simulating
        else Pending)"

section \<open>Requests\<close>

definition build_xt_request :: "raw_txs \<Rightarrow> xt_request" where
  "build_xt_request txs =
    (if txs = [] then []
     else
       let chain_ids = sort (hm_keys txs)
       in List.map_filter (\<lambda>chain_id.
            case hm_get txs chain_id of
              None \<Rightarrow> None
            | Some chain_txs \<Rightarrow>
                if chain_txs = [] then None
                else Some \<lparr>tr_chain_id = chain_id, tr_transactions = chain_txs\<rparr>) chain_ids)"

definition xt_request_fingerprint :: "externals \<Rightarrow> (xt_request \<Rightarrow> bytes) \<Rightarrow> xt_request \<Rightarrow> string" where
  "xt_request_fingerprint X encode_to_vec req = hex_encode X (take 16 (sha256 X (encode_to_vec req)))"

definition build_sender_nonce_cache ::
  "(bytes \<Rightarrow> (address \<times> u64) option) \<Rightarrow> raw_txs \<Rightarrow> (u64, address \<times> u64) hmap" where
  "build_sender_nonce_cache decode_sender_nonce txs =
    List.map_filter (\<lambda>(chain_id, chain_txs).
      case chain_txs of
        [] \<Rightarrow> None
      | tx # _ \<Rightarrow> map_option (\<lambda>sn. (chain_id, sn)) (decode_sender_nonce tx)) txs"

definition deps_for_chain :: "dependency list \<Rightarrow> u64 \<Rightarrow> dependency list" where
  "deps_for_chain deps chain_id = filter (\<lambda>dep. dep_dest_chain_id dep = chain_id) deps"

section \<open>Coordinator state\<close>

type_synonym waiter = nat

record coordinator_state =
  pending :: "(instance_id, pending_xt) hmap"
  publisher_period :: publisher_period
  last_known_blocks :: "(u64, u64) hmap"
  origin_seq :: u64
  chain_overlay :: "(u64, state_override) hmap"
  submitted_fingerprints :: "(string, instance_id) hmap"
  pending_submissions :: "(string, waiter list) hmap"
  mailbox_index :: "(bytes, instance_id) hmap"
  mailbox_buffer :: "(bytes, mailbox_message list) hmap"

definition coordinator_state_new :: coordinator_state where
  "coordinator_state_new =
    \<lparr>pending = [], publisher_period = period_default, last_known_blocks = [], origin_seq = 0,
     chain_overlay = [], submitted_fingerprints = [], pending_submissions = [], mailbox_index = [],
     mailbox_buffer = []\<rparr>"

definition mailbox_buffer_max_keys :: nat where
  "mailbox_buffer_max_keys = 1024"

definition mailbox_buffer_max_per_key :: nat where
  "mailbox_buffer_max_per_key = 256"

definition max_pending_xts :: nat where
  "max_pending_xts = 100"

definition buffer_orphan_mailbox :: "mailbox_message \<Rightarrow> coordinator_state \<Rightarrow> coordinator_state" where
  "buffer_orphan_mailbox msg s =
    (let known = hm_contains (mailbox_buffer s) (msg_instance_id msg) in
     if \<not> known \<and> length (mailbox_buffer s) \<ge> mailbox_buffer_max_keys then s
     else
       let bucket = (case hm_get (mailbox_buffer s) (msg_instance_id msg) of None \<Rightarrow> [] | Some b \<Rightarrow> b);
           s = s\<lparr>mailbox_buffer := hm_insert (msg_instance_id msg) bucket (mailbox_buffer s)\<rparr>
       in if length bucket \<ge> mailbox_buffer_max_per_key then s
          else s\<lparr>mailbox_buffer := hm_insert (msg_instance_id msg) (bucket @ [msg]) (mailbox_buffer s)\<rparr>)"

definition drain_mailbox_buffer :: "bytes \<Rightarrow> coordinator_state \<Rightarrow> mailbox_message list \<times> coordinator_state" where
  "drain_mailbox_buffer raw_id s =
    ((case hm_get (mailbox_buffer s) raw_id of None \<Rightarrow> [] | Some b \<Rightarrow> b),
     s\<lparr>mailbox_buffer := hm_remove raw_id (mailbox_buffer s)\<rparr>)"

definition undecided_count :: "coordinator_state \<Rightarrow> nat" where
  "undecided_count s = length (filter (\<lambda>xt. xt_decision xt = None) (hm_values (pending s)))"

text \<open>\<open>pending.get_mut\<close>: change the XT under a key that is present.\<close>

definition update_xt :: "instance_id \<Rightarrow> (pending_xt \<Rightarrow> pending_xt) \<Rightarrow> coordinator_state \<Rightarrow> coordinator_state" where
  "update_xt i f s =
    (case hm_get (pending s) i of
      None \<Rightarrow> s
    | Some xt \<Rightarrow> s\<lparr>pending := hm_insert i (f xt) (pending s)\<rparr>)"

section \<open>The invariant\<close>

text \<open>
  One XT: a decision carries its time, the local vote its flag and its time, and the two
  deduplication sets are the keys of the lists beside them.
\<close>

definition xt_inv :: "pending_xt \<Rightarrow> bool" where
  "xt_inv xt \<longleftrightarrow>
     (xt_decision xt = None \<longleftrightarrow> xt_decided_at xt = None) \<and>
     (xt_vote_sent xt \<longleftrightarrow> xt_local_vote xt \<noteq> None) \<and>
     (xt_simulated_at xt = None \<longleftrightarrow> xt_local_vote xt = None) \<and>
     hm_wf (xt_peer_votes xt) \<and>
     dependency_key_from ` set (xt_dependencies xt) = xt_dep_keys xt \<and>
     distinct (map dependency_key_from (xt_dependencies xt)) \<and>
     dependency_key_from ` set (xt_fulfilled_deps xt) = xt_fulfilled_dep_keys xt \<and>
     distinct (map dependency_key_from (xt_fulfilled_deps xt)) \<and>
     list_all (\<lambda>d. dep_data d \<noteq> None) (xt_fulfilled_deps xt)"

text \<open>
  The state: every XT is filed under its id, an id of the standalone form has its
  own bytes as the raw instance id, the mailbox index and the
  fingerprint table only name pending XTs, the orphan buffer respects its caps,
  at most a hundred XTs are undecided.
\<close>

definition pending_inv :: "coordinator_state \<Rightarrow> bool" where
  "pending_inv s \<longleftrightarrow> hm_wf (pending s) \<and>
     (\<forall>i xt. hm_get (pending s) i = Some xt \<longrightarrow> xt_id xt = i \<and> xt_inv xt \<and>
        (take 3 i = ''xt-'' \<longrightarrow> xt_instance_id xt = as_bytes i))"

definition index_inv :: "coordinator_state \<Rightarrow> bool" where
  "index_inv s \<longleftrightarrow> (\<forall>raw i. hm_get (mailbox_index s) raw = Some i \<longrightarrow>
     (\<exists>xt. hm_get (pending s) i = Some xt \<and> xt_instance_id xt = raw))"

definition fingerprint_inv :: "coordinator_state \<Rightarrow> bool" where
  "fingerprint_inv s \<longleftrightarrow> hm_wf (submitted_fingerprints s) \<and>
     (\<forall>fp i. hm_get (submitted_fingerprints s) fp = Some i \<longrightarrow> hm_contains (pending s) i)"

definition buffer_inv :: "coordinator_state \<Rightarrow> bool" where
  "buffer_inv s \<longleftrightarrow> hm_wf (mailbox_buffer s) \<and> length (mailbox_buffer s) \<le> mailbox_buffer_max_keys \<and>
     (\<forall>raw b. hm_get (mailbox_buffer s) raw = Some b \<longrightarrow>
        length b \<le> mailbox_buffer_max_per_key \<and> list_all (\<lambda>m. msg_instance_id m = raw) b)"

definition coord_inv :: "coordinator_state \<Rightarrow> bool" where
  "coord_inv s \<longleftrightarrow> pending_inv s \<and> index_inv s \<and> fingerprint_inv s \<and> buffer_inv s \<and>
     undecided_count s \<le> max_pending_xts"

named_theorems inv_defs \<open>the parts of the coordinator invariant\<close>

lemmas [inv_defs] = coord_inv_def pending_inv_def index_inv_def fingerprint_inv_def buffer_inv_def

section \<open>Lemmas\<close>

lemma coord_inv_new: "coord_inv coordinator_state_new"
  by (simp add: inv_defs coordinator_state_new_def undecided_count_def)

lemma coord_inv_parts:
  assumes "coord_inv s"
  shows "pending_inv s" "index_inv s" "fingerprint_inv s" "buffer_inv s" "undecided_count s \<le> max_pending_xts"
  using assms by (simp_all add: coord_inv_def)

lemma coord_inv_index:
  "coord_inv s \<Longrightarrow> hm_get (mailbox_index s) raw = Some i \<Longrightarrow>
    \<exists>xt. hm_get (pending s) i = Some xt \<and> xt_instance_id xt = raw"
  by (simp add: coord_inv_def index_inv_def)

lemma coord_inv_xt: "coord_inv s \<Longrightarrow> hm_get (pending s) i = Some xt \<Longrightarrow> xt_id xt = i \<and> xt_inv xt"
  by (simp add: coord_inv_def pending_inv_def)

lemma coord_inv_wf: "coord_inv s \<Longrightarrow> hm_wf (pending s)"
  by (simp add: coord_inv_def pending_inv_def)

lemma xt_inv_new [simp]: "xt_inv (pending_xt_new now i raw)"
  by (simp add: xt_inv_def pending_xt_new_def)

lemma xt_inv_record_decision [simp]: "xt_inv xt \<Longrightarrow> xt_inv (record_decision now d xt)"
  by (simp add: xt_inv_def record_decision_def)

lemma record_decision_fields [simp]:
  "xt_decision (record_decision now d xt) = Some d"
  "xt_id (record_decision now d xt) = xt_id xt"
  "xt_instance_id (record_decision now d xt) = xt_instance_id xt"
  "xt_raw_txs (record_decision now d xt) = xt_raw_txs xt"
  "xt_local_vote (record_decision now d xt) = xt_local_vote xt"
  "xt_peer_votes (record_decision now d xt) = xt_peer_votes xt"
  "xt_fulfilled_deps (record_decision now d xt) = xt_fulfilled_deps xt"
  "xt_confirmed_at (record_decision now d xt) = xt_confirmed_at xt"
  by (simp_all add: record_decision_def)

lemma undecided_filter_count:
  "hm_wf m \<Longrightarrow> map_of m k = Some x \<Longrightarrow>
    length (filter P (map snd (hm_insert k y m))) + (if P x then 1 else 0)
      = length (filter P (map snd m)) + (if P y then 1 else 0)"
  by (induction m) (auto split: if_splits)

lemma undecided_fresh_count:
  "map_of m k = None \<Longrightarrow>
    length (filter P (map snd (hm_insert k y m))) = length (filter P (map snd m)) + (if P y then 1 else 0)"
  by (induction m) (auto split: if_splits)

lemma undecided_filter_le: "length (filter P (map snd (filter Q m))) \<le> length (filter P (map snd m))"
  by (induction m) auto

lemma update_xt_pending:
  "hm_get (pending (update_xt i f s)) j =
    (if j = i then map_option f (hm_get (pending s) i) else hm_get (pending s) j)"
  by (auto simp: update_xt_def hm_simps split: option.splits)

lemma update_xt_fields [simp]:
  "publisher_period (update_xt i f s) = publisher_period s"
  "last_known_blocks (update_xt i f s) = last_known_blocks s"
  "origin_seq (update_xt i f s) = origin_seq s"
  "chain_overlay (update_xt i f s) = chain_overlay s"
  "submitted_fingerprints (update_xt i f s) = submitted_fingerprints s"
  "pending_submissions (update_xt i f s) = pending_submissions s"
  "mailbox_index (update_xt i f s) = mailbox_index s"
  "mailbox_buffer (update_xt i f s) = mailbox_buffer s"
  by (simp_all add: update_xt_def split: option.split)

text \<open>
  A change of one XT that keeps its identity, keeps its invariant and never
  withdraws a decision keeps the state invariant.
\<close>

definition xt_step_ok :: "(pending_xt \<Rightarrow> pending_xt) \<Rightarrow> pending_xt \<Rightarrow> bool" where
  "xt_step_ok f xt \<longleftrightarrow> xt_id (f xt) = xt_id xt \<and> xt_instance_id (f xt) = xt_instance_id xt \<and>
     (xt_inv xt \<longrightarrow> xt_inv (f xt)) \<and> (xt_decision (f xt) = None \<longrightarrow> xt_decision xt = None)"

lemma update_xt_inv:
  assumes "coord_inv s" "\<And>xt. hm_get (pending s) i = Some xt \<Longrightarrow> xt_step_ok f xt"
  shows "coord_inv (update_xt i f s)"
proof (cases "hm_get (pending s) i")
  case None
  then show ?thesis using assms(1) by (simp add: update_xt_def)
next
  case (Some xt)
  have ok: "xt_step_ok f xt" using assms(2) Some by blast
  have wf: "hm_wf (pending s)" using assms(1) by (simp add: inv_defs)
  have "undecided_count (update_xt i f s) \<le> undecided_count s"
    using undecided_filter_count[OF wf Some, of "\<lambda>xt. xt_decision xt = None" "f xt"] ok Some
    by (auto simp: undecided_count_def update_xt_def xt_step_ok_def split: if_splits)
  moreover have "pending_inv (update_xt i f s)"
    using assms(1) ok Some wf by (auto simp: inv_defs update_xt_def hm_simps xt_step_ok_def)
  moreover have "index_inv (update_xt i f s)"
    using assms(1) ok Some by (fastforce simp: inv_defs update_xt_pending xt_step_ok_def)
  moreover have "fingerprint_inv (update_xt i f s)"
    using assms(1) Some by (auto simp: inv_defs update_xt_pending hm_contains_iff)
  moreover have "buffer_inv (update_xt i f s)" using assms(1) by (simp add: inv_defs)
  ultimately show ?thesis using assms(1) by (simp add: coord_inv_def)
qed

lemma bucket_inv:
  assumes "buffer_inv s" "hm_get (mailbox_buffer s) raw = Some b"
  shows "length b \<le> mailbox_buffer_max_per_key" "\<forall>m \<in> set b. msg_instance_id m = raw"
  using assms by (auto simp: buffer_inv_def list_all_iff)

lemma buffer_orphan_buffer_inv: "buffer_inv s \<Longrightarrow> buffer_inv (buffer_orphan_mailbox msg s)"
  unfolding buffer_inv_def buffer_orphan_mailbox_def Let_def
  by (auto simp: hm_simps length_insert hm_contains_iff list_all_iff split: option.splits if_splits
      intro: antisym)

lemma buffer_orphan_fields [simp]:
  "pending (buffer_orphan_mailbox msg s) = pending s"
  "mailbox_index (buffer_orphan_mailbox msg s) = mailbox_index s"
  "submitted_fingerprints (buffer_orphan_mailbox msg s) = submitted_fingerprints s"
  by (simp_all add: buffer_orphan_mailbox_def Let_def)

lemma buffer_orphan_inv: "coord_inv s \<Longrightarrow> coord_inv (buffer_orphan_mailbox msg s)"
  using buffer_orphan_buffer_inv[of s msg]
  by (simp add: coord_inv_def pending_inv_def index_inv_def fingerprint_inv_def undecided_count_def)

lemma drain_fields [simp]:
  "pending (snd (drain_mailbox_buffer raw s)) = pending s"
  "mailbox_index (snd (drain_mailbox_buffer raw s)) = mailbox_index s"
  "submitted_fingerprints (snd (drain_mailbox_buffer raw s)) = submitted_fingerprints s"
  by (simp_all add: drain_mailbox_buffer_def)

lemma drain_inv: "coord_inv s \<Longrightarrow> coord_inv (snd (drain_mailbox_buffer raw s))"
  using length_remove[of raw "mailbox_buffer s"]
  by (auto simp: inv_defs undecided_count_def drain_mailbox_buffer_def hm_simps split: if_splits)

section \<open>Properties\<close>

text \<open>The processing order of XTs, period first, then sequence number, then id, is a strict total
  order on XTs with distinct ids.\<close>

lemma xt_less_total_order:
  "\<not> xt_less i a i a \<and>
   (xt_less i a j b \<and> xt_less j b k c \<longrightarrow> xt_less i a k c) \<and>
   (i \<noteq> j \<longrightarrow> xt_less i a j b \<noteq> xt_less j b i a)"
  by (auto simp: xt_less_def split: if_splits)

text \<open>An XT is reported committed exactly when it was decided to commit and the builder confirmed
  its inclusion, aborted exactly when it was decided to abort, and it is reported waiting only while
  some recorded dependency is unfulfilled.\<close>

lemma status_reports:
  "(determine_xt_status xt = Committed \<longleftrightarrow> xt_decision xt = Some True \<and> xt_confirmed_at xt \<noteq> None) \<and>
   (determine_xt_status xt = Aborted \<longleftrightarrow> xt_decision xt = Some False) \<and>
   (determine_xt_status xt = WaitingCirc \<longleftrightarrow> xt_decision xt = None \<and> \<not> xt_vote_sent xt \<and>
      xt_simulated_at xt \<noteq> None \<and> length (xt_fulfilled_deps xt) < length (xt_dependencies xt))"
  by (auto simp: determine_xt_status_def split: option.splits)

end
