(* ===== verification/Permissions.thy ===== *)
theory Permissions
  imports Primitives
begin

text \<open>
  The permission engine: \<open>permissions/src/snapshot.rs\<close> (wire types and the indexed
  snapshot), \<open>permissions/src/engine.rs\<close> (the evaluator) and the stream handler of
  \<open>permissions/src/stream.rs\<close>.  The JSON decoder of a stream frame and the address
  parser come from crates and are parameters.
\<close>

section \<open>Snapshots\<close>

datatype snapshot_error = InvalidAddress string | UnknownRuleGroup string

record wire_wallet =
  ww_address :: string

record wire_entity =
  we_is_active :: bool
  we_rule_group_id :: string
  we_wallet_addresses :: "wire_wallet list"

record wire_rollup_item =
  wr_chain_id :: u64

record wire_rule_group =
  wg_rule_group_id :: string
  wg_send_native :: bool
  wg_can_deploy_contract :: bool
  wg_network_scope :: string
  wg_rollups :: "wire_rollup_item list"

record snapshot_data =
  sd_version :: u64
  sd_entities :: "wire_entity list"
  sd_rule_groups :: "wire_rule_group list"

record stream_frame =
  frame_type :: string
  frame_data :: snapshot_data

datatype network_scope = All | Restricted

definition ascii_lower :: "char \<Rightarrow> char" where
  "ascii_lower c = (if 65 \<le> (of_char c :: nat) \<and> (of_char c :: nat) \<le> 90 then char_of ((of_char c :: nat) + 32) else c)"

definition network_scope_parse :: "string \<Rightarrow> network_scope" where
  "network_scope_parse raw = (if map ascii_lower raw = ''restricted'' then Restricted else All)"

record rule_group =
  send_native :: bool
  can_deploy_contract :: bool
  network_scope :: network_scope
  allowed_peers :: "u64 list"

record wallet_policy =
  entity_active :: bool
  policy_group :: "rule_group option"

record policy_snapshot =
  snap_version :: u64
  snap_received_at :: nat
  snap_wallets :: "(address, wallet_policy) hmap"

definition rule_group_from_wire :: "wire_rule_group \<Rightarrow> rule_group" where
  "rule_group_from_wire g =
    \<lparr>send_native = wg_send_native g, can_deploy_contract = wg_can_deploy_contract g,
     network_scope = network_scope_parse (wg_network_scope g),
     allowed_peers = map wr_chain_id (wg_rollups g)\<rparr>"

definition groups_from_wire :: "wire_rule_group list \<Rightarrow> (string, rule_group) hmap" where
  "groups_from_wire gs = fold (\<lambda>g m. hm_insert (wg_rule_group_id g) (rule_group_from_wire g) m) gs []"

fun insert_wallets ::
  "(string \<Rightarrow> address option) \<Rightarrow> bool \<Rightarrow> rule_group option \<Rightarrow> wire_wallet list
    \<Rightarrow> (address, wallet_policy) hmap \<Rightarrow> (snapshot_error, (address, wallet_policy) hmap) result" where
  "insert_wallets parse_addr active grp [] wallets = Inr wallets"
| "insert_wallets parse_addr active grp (w # ws) wallets =
    (case parse_addr (ww_address w) of
      None \<Rightarrow> Inl (InvalidAddress (ww_address w))
    | Some a \<Rightarrow> insert_wallets parse_addr active grp ws
        (hm_insert a \<lparr>entity_active = active, policy_group = grp\<rparr> wallets))"

fun insert_entities ::
  "(string \<Rightarrow> address option) \<Rightarrow> (string, rule_group) hmap \<Rightarrow> wire_entity list
    \<Rightarrow> (address, wallet_policy) hmap \<Rightarrow> (snapshot_error, (address, wallet_policy) hmap) result" where
  "insert_entities parse_addr groups [] wallets = Inr wallets"
| "insert_entities parse_addr groups (e # es) wallets =
    (let grp = (if we_rule_group_id e = [] then Inr None
                  else case hm_get groups (we_rule_group_id e) of
                    None \<Rightarrow> Inl (UnknownRuleGroup (we_rule_group_id e))
                  | Some g \<Rightarrow> Inr (Some g))
     in case grp of
       Inl err \<Rightarrow> Inl err
     | Inr grp \<Rightarrow>
         (case insert_wallets parse_addr (we_is_active e) grp (we_wallet_addresses e) wallets of
           Inl err \<Rightarrow> Inl err
         | Inr wallets \<Rightarrow> insert_entities parse_addr groups es wallets))"

definition from_wire ::
  "(string \<Rightarrow> address option) \<Rightarrow> snapshot_data \<Rightarrow> nat \<Rightarrow> (snapshot_error, policy_snapshot) result" where
  "from_wire parse_addr data received_at =
    (case insert_entities parse_addr (groups_from_wire (sd_rule_groups data)) (sd_entities data) [] of
      Inl err \<Rightarrow> Inl err
    | Inr wallets \<Rightarrow> Inr \<lparr>snap_version = sd_version data, snap_received_at = received_at, snap_wallets = wallets\<rparr>)"

definition wallet :: "policy_snapshot \<Rightarrow> address \<Rightarrow> wallet_policy option" where
  "wallet snapshot a = hm_get (snap_wallets snapshot) a"

section \<open>The engine\<close>

datatype deny_reason =
    ConfigUnavailable | EntityInactive | NativeSendBlocked | ContractDeployBlocked | PeerChainNotWhitelisted

datatype decision = Allow | Deny deny_reason

fun deny_reason_str :: "deny_reason \<Rightarrow> string" where
  "deny_reason_str ConfigUnavailable = ''config unavailable''"
| "deny_reason_str EntityInactive = ''entity inactive''"
| "deny_reason_str NativeSendBlocked = ''native send blocked''"
| "deny_reason_str ContractDeployBlocked = ''contract deploy blocked''"
| "deny_reason_str PeerChainNotWhitelisted = ''peer chain not whitelisted''"

record permission_engine =
  engine_enabled :: bool
  engine_connected :: bool
  engine_snapshot :: "policy_snapshot option"

definition engine_new :: "bool \<Rightarrow> permission_engine" where
  "engine_new enabled = \<lparr>engine_enabled = enabled, engine_connected = False, engine_snapshot = None\<rparr>"

definition engine_store :: "policy_snapshot \<Rightarrow> permission_engine \<Rightarrow> permission_engine" where
  "engine_store snapshot e = e\<lparr>engine_snapshot := Some snapshot\<rparr>"

definition set_connected :: "bool \<Rightarrow> permission_engine \<Rightarrow> permission_engine" where
  "set_connected connected e = e\<lparr>engine_connected := connected\<rparr>"

definition engine_version :: "permission_engine \<Rightarrow> u64 option" where
  "engine_version e = map_option snap_version (engine_snapshot e)"

definition fresh :: "permission_engine \<Rightarrow> policy_snapshot option" where
  "fresh e = (if \<not> engine_connected e then None else engine_snapshot e)"

definition engine_is_ready :: "permission_engine \<Rightarrow> bool" where
  "engine_is_ready e \<longleftrightarrow> \<not> engine_enabled e \<or> fresh e \<noteq> None"

definition resolve_group :: "permission_engine \<Rightarrow> address \<Rightarrow> (deny_reason, rule_group option) result" where
  "resolve_group e a =
    (if \<not> engine_enabled e then Inr None
     else case fresh e of
       None \<Rightarrow> Inl ConfigUnavailable
     | Some snapshot \<Rightarrow>
         (case wallet snapshot a of
           None \<Rightarrow> Inr None
         | Some w \<Rightarrow> if \<not> entity_active w then Inl EntityInactive else Inr (policy_group w)))"

definition evaluate_tx :: "permission_engine \<Rightarrow> address \<Rightarrow> bool \<Rightarrow> bool \<Rightarrow> decision" where
  "evaluate_tx e from is_create has_value =
    (case resolve_group e from of
      Inr None \<Rightarrow> Allow
    | Inl reason \<Rightarrow> Deny reason
    | Inr (Some grp) \<Rightarrow>
        if has_value \<and> \<not> send_native grp then Deny NativeSendBlocked
        else if is_create \<and> \<not> can_deploy_contract grp then Deny ContractDeployBlocked
        else Allow)"

definition evaluate_xt :: "permission_engine \<Rightarrow> address \<Rightarrow> u64 \<Rightarrow> u64 list \<Rightarrow> decision" where
  "evaluate_xt e sender local_chain involved =
    (case resolve_group e sender of
      Inr None \<Rightarrow> Allow
    | Inl reason \<Rightarrow> Deny reason
    | Inr (Some grp) \<Rightarrow>
        if network_scope grp = Restricted \<and>
           list_ex (\<lambda>chain. chain \<noteq> local_chain \<and> \<not> List.member (allowed_peers grp) chain) involved
        then Deny PeerChainNotWhitelisted
        else Allow)"

section \<open>The policy stream\<close>

definition on_message ::
  "(string \<Rightarrow> address option) \<Rightarrow> (string \<Rightarrow> stream_frame option) \<Rightarrow> nat \<Rightarrow> string
    \<Rightarrow> permission_engine \<Rightarrow> permission_engine" where
  "on_message parse_addr parse_frame now txt e =
    (case parse_frame txt of
      None \<Rightarrow> e
    | Some frame \<Rightarrow>
        if frame_type frame = ''snapshot''
        then (case from_wire parse_addr (frame_data frame) now of
               Inr snapshot \<Rightarrow> engine_store snapshot e
             | Inl _ \<Rightarrow> e)
        else e)"

definition on_connected :: "permission_engine \<Rightarrow> permission_engine" where
  "on_connected e = set_connected True e"

definition on_disconnected :: "permission_engine \<Rightarrow> permission_engine" where
  "on_disconnected e = set_connected False e"

definition resume_query :: "permission_engine \<Rightarrow> string option" where
  "resume_query e = map_option (\<lambda>version. ''since='' @ show_u64 version) (engine_version e)"

datatype stream_event = Message string nat | Connected | Disconnected

fun stream_step ::
  "(string \<Rightarrow> address option) \<Rightarrow> (string \<Rightarrow> stream_frame option) \<Rightarrow> stream_event
    \<Rightarrow> permission_engine \<Rightarrow> permission_engine" where
  "stream_step pa pf (Message txt now) e = on_message pa pf now txt e"
| "stream_step pa pf Connected e = on_connected e"
| "stream_step pa pf Disconnected e = on_disconnected e"

section \<open>The policy a snapshot stands for\<close>

text \<open>
  The wallet assignments of a payload in the order they are applied; a later
  assignment of the same address replaces an earlier one.
\<close>

fun wire_assignments ::
  "(string \<Rightarrow> address option) \<Rightarrow> wire_entity list \<Rightarrow> (address option \<times> wire_entity) list" where
  "wire_assignments pa [] = []"
| "wire_assignments pa (e # es) =
    map (\<lambda>w. (pa (ww_address w), e)) (we_wallet_addresses e) @ wire_assignments pa es"

definition last_assignment :: "(string \<Rightarrow> address option) \<Rightarrow> wire_entity list \<Rightarrow> address \<Rightarrow> wire_entity option" where
  "last_assignment pa es a = map_of (rev (wire_assignments pa es)) (Some a)"

definition group_of :: "snapshot_data \<Rightarrow> wire_entity \<Rightarrow> rule_group option" where
  "group_of data e = (if we_rule_group_id e = [] then None
     else map_of (rev (map (\<lambda>g. (wg_rule_group_id g, rule_group_from_wire g)) (sd_rule_groups data))) (we_rule_group_id e))"

lemma groups_from_wire_get:
  "map_of (groups_from_wire gs) = map_of (rev (map (\<lambda>g. (wg_rule_group_id g, rule_group_from_wire g)) gs))"
  unfolding groups_from_wire_def
  by (induction gs rule: rev_induct) (auto simp: hm_simps)

lemma insert_wallets_get:
  assumes "insert_wallets pa act grp ws m = Inr m'"
  shows "map_of m' a = (if Some a \<in> pa ` ww_address ` set ws
    then Some \<lparr>entity_active = act, policy_group = grp\<rparr> else map_of m a)"
  using assms
proof (induction pa act grp ws m rule: insert_wallets.induct)
  case (2 pa act grp w ws m)
  then show ?case by (auto simp: hm_simps split: option.splits if_splits)
qed simp

lemma wire_assignments_snoc:
  "map_of (rev (wire_assignments pa (e # es))) k =
    (case map_of (rev (wire_assignments pa es)) k of
      Some x \<Rightarrow> Some x
    | None \<Rightarrow> if k \<in> pa ` ww_address ` set (we_wallet_addresses e) then Some e else None)"
proof -
  have eq: "map_of (rev (map (\<lambda>w. (pa (ww_address w), e)) ws)) k = (if k \<in> pa ` ww_address ` set ws then Some e else None)" for ws
    by (induction ws) (auto simp: map_add_def split: option.splits)
  show ?thesis
    unfolding wire_assignments.simps rev_append map_of_append map_add_def eq by (rule refl)
qed

lemma insert_entities_get:
  assumes "insert_entities pa (groups_from_wire (sd_rule_groups data)) es m = Inr m'"
  shows "map_of m' a = (case last_assignment pa es a of
      Some e \<Rightarrow> Some \<lparr>entity_active = we_is_active e, policy_group = group_of data e\<rparr>
    | None \<Rightarrow> map_of m a)"
  using assms
proof (induction es arbitrary: m)
  case Nil
  then show ?case by (simp add: last_assignment_def)
next
  case (Cons e es)
  then obtain grp m1 where grp: "grp = group_of data e"
    and iw: "insert_wallets pa (we_is_active e) grp (we_wallet_addresses e) m = Inr m1"
    and rest: "insert_entities pa (groups_from_wire (sd_rule_groups data)) es m1 = Inr m'"
    by (auto simp: group_of_def groups_from_wire_get Let_def split: option.splits sum.splits if_splits)
  show ?case
    unfolding Cons.IH[OF rest] insert_wallets_get[OF iw] last_assignment_def wire_assignments_snoc
    using grp by (auto split: option.splits)
qed

lemma from_wire_wallet:
  assumes "from_wire pa data now = Inr s"
  shows "wallet s a = map_option (\<lambda>e. \<lparr>entity_active = we_is_active e, policy_group = group_of data e\<rparr>)
    (last_assignment pa (sd_entities data) a)"
  using assms insert_entities_get[of pa data "sd_entities data" "[]" _ a]
  by (auto simp: from_wire_def wallet_def split: sum.splits option.splits)

lemma stream_step_enabled [simp]: "engine_enabled (stream_step pa pf ev e) = engine_enabled e"
  by (cases ev) (auto simp: on_message_def on_connected_def on_disconnected_def set_connected_def
      engine_store_def split: option.splits sum.splits)

lemma fold_stream_enabled [simp]: "engine_enabled (fold (stream_step pa pf) evs e) = engine_enabled e"
  by (induction evs arbitrary: e) auto

section \<open>Properties\<close>

text \<open>The permission check fails closed: with permissions enabled, and whatever messages the policy
  stream delivered, no transaction and no cross-rollup instance is allowed while the stream is down
  or before a well-formed snapshot arrived.\<close>

lemma permissions_fail_closed:
  assumes "engine_enabled e" "\<not> engine_connected e \<or> engine_snapshot e = None"
  shows "evaluate_tx e a c v = Deny ConfigUnavailable \<and> evaluate_xt e a l involved = Deny ConfigUnavailable \<and>
    \<not> engine_is_ready e"
  using assms by (auto simp: evaluate_tx_def evaluate_xt_def resolve_group_def fresh_def engine_is_ready_def)

lemma permissions_fail_closed_example:
  "evaluate_xt (fold (stream_step (\<lambda>s. None) (\<lambda>s. None)) [Connected, Message ''x'' 0] (engine_new True)) 7 1 [1, 2]
   = Deny ConfigUnavailable"
  by (rule permissions_fail_closed[THEN conjunct2, THEN conjunct1])
    (simp_all add: on_message_def on_connected_def set_connected_def engine_new_def)

text \<open>A snapshot is applied as a whole or not at all: after a stream message the engine is either
  unchanged or holds the complete policy of the frame, in which every wallet resolves to the entity
  that listed it last and to that entity's rule group.\<close>

lemma snapshot_all_or_nothing:
  "on_message pa pf now txt e = e \<or>
   (\<exists>frame s. pf txt = Some frame \<and> frame_type frame = ''snapshot'' \<and>
      on_message pa pf now txt e = e\<lparr>engine_snapshot := Some s\<rparr> \<and> snap_version s = sd_version (frame_data frame) \<and>
      (\<forall>a. wallet s a = map_option
         (\<lambda>ent. \<lparr>entity_active = we_is_active ent, policy_group = group_of (frame_data frame) ent\<rparr>)
         (last_assignment pa (sd_entities (frame_data frame)) a)))"
proof (cases "on_message pa pf now txt e = e")
  case False
  then obtain frame s where f: "pf txt = Some frame" "frame_type frame = ''snapshot''"
    and s: "from_wire pa (frame_data frame) now = Inr s" "on_message pa pf now txt e = engine_store s e"
    by (auto simp: on_message_def split: option.splits sum.splits if_splits)
  moreover have "snap_version s = sd_version (frame_data frame)"
    using s(1) by (auto simp: from_wire_def split: sum.splits)
  ultimately show ?thesis using from_wire_wallet[OF s(1)] by (auto simp: engine_store_def)
qed simp

text \<open>With a live policy, a cross-rollup instance is allowed exactly when the sender is not an
  inactive entity's wallet and, if its rule group is restricted, every participating chain other than
  the local one is whitelisted.\<close>

lemma evaluate_xt_allows:
  assumes "engine_enabled e" "fresh e = Some s"
  shows "evaluate_xt e sender l involved = Allow \<longleftrightarrow>
    (case wallet s sender of
      None \<Rightarrow> True
    | Some w \<Rightarrow> entity_active w \<and>
        (case policy_group w of
          None \<Rightarrow> True
        | Some g \<Rightarrow> network_scope g = Restricted \<longrightarrow> set involved \<subseteq> insert l (set (allowed_peers g))))"
  using assms
  by (auto simp: evaluate_xt_def resolve_group_def list_ex_iff split: option.splits)

definition demo_engine :: permission_engine where
  "demo_engine = \<lparr>engine_enabled = True, engine_connected = True, engine_snapshot = Some
     \<lparr>snap_version = 1, snap_received_at = 0, snap_wallets = [(7, \<lparr>entity_active = True, policy_group = Some
        \<lparr>send_native = True, can_deploy_contract = False, network_scope = Restricted, allowed_peers = [2]\<rparr>\<rparr>)]\<rparr>\<rparr>"

lemma evaluate_xt_allows_example:
  "evaluate_xt demo_engine 7 1 [1, 2] = Allow \<and> evaluate_xt demo_engine 7 1 [1, 3] \<noteq> Allow"
  using evaluate_xt_allows[of demo_engine "the (fresh demo_engine)" 7 1 "[1, 2]"]
    evaluate_xt_allows[of demo_engine "the (fresh demo_engine)" 7 1 "[1, 3]"]
  by (simp add: demo_engine_def fresh_def wallet_def)

end
