(* ===== verification/Builder_Control.thy ===== *)
theory Builder_Control
  imports Coordinator_State Permissions
begin

text \<open>
  The coordinator with its collaborators, and builder control,
  \<open>coordinator/src/handlers/builder_control.rs\<close>: submitting, releasing and aborting
  an XT at the local builder, the signed \<open>putInbox\<close> transactions of a release, and
  the removal and confirmation of XTs.

  The collaborators of \<open>DefaultCoordinator\<close> are trait objects whose answers come
  from outside the process.  They are the fields of \<open>coordinator\<close>: an \<open>option\<close> is a
  collaborator that may not be configured, its functions give the answer to each
  call.  What the coordinator does to the outside is the list of effects \<open>sys_log\<close>.
  A request is logged when it is made, whatever the answer.  Metrics and log lines
  are not modelled.
\<close>

section \<open>Collaborators\<close>

record xt_builder_client =
  submit_locked_xt :: "instance_id \<Rightarrow> u64 \<Rightarrow> u64 \<Rightarrow> bytes list \<Rightarrow> (coordinator_error, unit) result"
  release_xt :: "instance_id \<Rightarrow> bytes list \<Rightarrow> (coordinator_error, unit) result"
  abort_xt :: "instance_id \<Rightarrow> (coordinator_error, unit) result"

record put_inbox_builder =
  signer_nonce_floor :: "(coordinator_error, u64) result"
  build_put_inbox_tx_with_nonce :: "dependency \<Rightarrow> u64 \<Rightarrow> (coordinator_error, bytes) result"

record publisher_client =
  publisher_is_connected :: bool
  publisher_send_vote :: "bytes \<Rightarrow> bool \<Rightarrow> (string, unit) result"
  publisher_send_raw :: "bytes \<Rightarrow> (string, unit) result"

record verification_config =
  verification_enabled :: bool
  verification_url :: string
  verification_timeout_ms :: u64

record verification_payload =
  payload_instance_id :: instance_id
  payload_dest_chain_id :: u64
  payload_origin_chain_id :: "u64 option"
  payload_txs :: "string list"

text \<open>
  The answer of the verification endpoint is the transport error, or the status
  code with its printed form.  \<open>spec\<close> functions of the protocol crate: the instance a start message
  denotes, the chains of a request and the two protobuf encodings.
\<close>

record spec_instance =
  inst_id :: bytes
  inst_period_id :: u64
  inst_sequence_number :: u64
  inst_xt_request :: xt_request

record start_instance_msg =
  si_instance_id :: bytes
  si_period_id :: u64
  si_sequence_number :: u64
  si_xt_request :: "xt_request option"

record coordinator =
  ext :: externals
  chain_id :: u64
  clock :: nat
  simulator :: "(u64 \<Rightarrow> bytes \<Rightarrow> state_override \<Rightarrow> dependency list \<Rightarrow> (string, simulation_result) result) option"
  publisher :: "publisher_client option"
  mailbox_sender :: "(u64 \<Rightarrow> mailbox_message \<Rightarrow> (coordinator_error, unit) result) option"
  has_mailbox_queue :: bool
  has_peer_coordinator :: bool
  put_inbox :: "put_inbox_builder option"
  builder_client :: "xt_builder_client option"
  verification :: verification_config
  verification_client :: "(verification_payload \<Rightarrow> (string, u32 \<times> string) result) option"
  permission :: "permission_engine option"
  decode_sender_nonce :: "bytes \<Rightarrow> (address \<times> u64) option"
  encode_xt_request :: "xt_request \<Rightarrow> bytes"
  encode_wire_message :: "xt_request \<Rightarrow> bytes"
  spec_instance_try_from :: "start_instance_msg \<Rightarrow> (string, spec_instance) result"
  chains_from_request :: "xt_request \<Rightarrow> u64 list"
  sender_closed :: "waiter \<Rightarrow> bool"

datatype effect =
    EBuilderSubmit instance_id u64 u64 "bytes list"
  | EBuilderRelease instance_id "bytes list"
  | EBuilderAbort instance_id
  | EPublisherVote bytes bool
  | EPublisherRaw bytes
  | EPeerVote instance_id u64 bool
  | EForwardXt instance_id raw_txs u64 u64
  | EMailboxSend u64 mailbox_message
  | EResolve waiter "(string, instance_id) result"
  | ESpawnProcess instance_id
  | ENotifyMailbox

record sys =
  sys_state :: coordinator_state
  sys_nonces :: nonce_inner
  sys_queue :: memory_queue
  sys_log :: "effect list"

definition sys_new :: sys where
  "sys_new = \<lparr>sys_state = coordinator_state_new, sys_nonces = nonce_new, sys_queue = queue_new, sys_log = []\<rparr>"

definition emit :: "effect \<Rightarrow> sys \<Rightarrow> sys" where
  "emit e w = w\<lparr>sys_log := sys_log w @ [e]\<rparr>"

definition is_publisher_connected :: "coordinator \<Rightarrow> bool" where
  "is_publisher_connected C = (case publisher C of None \<Rightarrow> False | Some p \<Rightarrow> publisher_is_connected p)"

section \<open>Builder commands\<close>

record xt_builder_submission =
  sub_instance_id :: instance_id
  sub_period_id :: u64
  sub_sequence_number :: u64
  sub_transactions :: "bytes list"

datatype xt_builder_command =
    Release instance_id "dependency list"
  | Abort instance_id

definition local_builder_submission :: "coordinator \<Rightarrow> pending_xt \<Rightarrow> xt_builder_submission option" where
  "local_builder_submission C xt =
    (case hm_get (xt_raw_txs xt) (chain_id C) of
      None \<Rightarrow> None
    | Some transactions \<Rightarrow>
        if transactions = [] then None
        else
          let sequence_number = (if xt_sequence_num xt \<noteq> 0 then xt_sequence_num xt else xt_origin_seq xt)
          in Some \<lparr>sub_instance_id = xt_id xt, sub_period_id = xt_period_id xt,
                   sub_sequence_number = sequence_number, sub_transactions = transactions\<rparr>)"

definition local_builder_command :: "coordinator \<Rightarrow> pending_xt \<Rightarrow> bool \<Rightarrow> xt_builder_command option" where
  "local_builder_command C xt d =
    (if (case hm_get (xt_raw_txs xt) (chain_id C) of None \<Rightarrow> True | Some txs \<Rightarrow> txs = []) then None
     else if d then Some (Release (xt_id xt) (deps_for_chain (xt_fulfilled_deps xt) (chain_id C)))
     else Some (Abort (xt_id xt)))"

definition submit_xt_to_builder ::
  "coordinator \<Rightarrow> xt_builder_submission \<Rightarrow> sys \<Rightarrow> (coordinator_error, unit) result \<times> sys" where
  "submit_xt_to_builder C submission w =
    (case builder_client C of
      None \<Rightarrow> (Inr (), w)
    | Some builder \<Rightarrow>
        (submit_locked_xt builder (sub_instance_id submission) (sub_period_id submission)
           (sub_sequence_number submission) (sub_transactions submission),
         emit (EBuilderSubmit (sub_instance_id submission) (sub_period_id submission)
           (sub_sequence_number submission) (sub_transactions submission)) w))"

text \<open>The loop over the dependencies, with the next nonce and the transactions so far.\<close>

fun build_put_inbox_loop ::
  "put_inbox_builder \<Rightarrow> dependency list \<Rightarrow> u64 \<Rightarrow> bytes list \<Rightarrow> (coordinator_error, bytes list) result" where
  "build_put_inbox_loop b [] nonce txs = Inr txs"
| "build_put_inbox_loop b (dep # deps) nonce txs =
    (case build_put_inbox_tx_with_nonce b dep nonce of
      Inr tx \<Rightarrow> build_put_inbox_loop b deps (sat_add nonce 1) (txs @ [tx])
    | Inl err \<Rightarrow> Inl err)"

definition build_put_inbox_transactions ::
  "coordinator \<Rightarrow> instance_id \<Rightarrow> dependency list \<Rightarrow> sys \<Rightarrow> (coordinator_error, bytes list) result \<times> sys" where
  "build_put_inbox_transactions C i deps w =
    (if deps = [] then (Inr [], w)
     else case put_inbox C of
       None \<Rightarrow> (Inl PutInboxNotConfigured, w)
     | Some builder \<Rightarrow>
         (case reserve i (length deps) (signer_nonce_floor builder) (sys_nonces w) of
           (Inl err, nm) \<Rightarrow> (Inl err, w\<lparr>sys_nonces := nm\<rparr>)
         | (Inr start_n, nm) \<Rightarrow>
             (case build_put_inbox_loop builder deps start_n [] of
               Inl err \<Rightarrow> (Inl err, w\<lparr>sys_nonces := release_aborted i nm\<rparr>)
             | Inr txs \<Rightarrow> (Inr txs, w\<lparr>sys_nonces := nm\<rparr>))))"

fun apply_builder_command ::
  "coordinator \<Rightarrow> xt_builder_command \<Rightarrow> sys \<Rightarrow> (coordinator_error, unit) result \<times> sys" where
  "apply_builder_command C (Release i deps) w =
    (case builder_client C of
      None \<Rightarrow> (Inr (), w)
    | Some builder \<Rightarrow>
        (case build_put_inbox_transactions C i deps w of
          (Inl err, w) \<Rightarrow> (Inl err, w)
        | (Inr txs, w) \<Rightarrow>
            (case release_xt builder i txs of
              Inl err \<Rightarrow>
                (let w = emit (EBuilderRelease i txs) w
                 in (Inl err, w\<lparr>sys_nonces := release_aborted i (sys_nonces w)\<rparr>))
            | Inr _ \<Rightarrow> (Inr (), emit (EBuilderRelease i txs) w))))"
| "apply_builder_command C (Abort i) w =
    (case builder_client C of
      None \<Rightarrow> (Inr (), w\<lparr>sys_nonces := release_aborted i (sys_nonces w)\<rparr>)
    | Some builder \<Rightarrow>
        (let w = emit (EBuilderAbort i) w in
         case abort_xt builder i of
           Inl err \<Rightarrow> (Inl err, w)
         | Inr _ \<Rightarrow> (Inr (), w\<lparr>sys_nonces := release_aborted i (sys_nonces w)\<rparr>)))"

text \<open>\<open>if let Some(command) = builder_command\<close>, with the error passed on.\<close>

definition apply_builder_command_opt ::
  "coordinator \<Rightarrow> xt_builder_command option \<Rightarrow> sys \<Rightarrow> (coordinator_error, unit) result \<times> sys" where
  "apply_builder_command_opt C cmd w =
    (case cmd of None \<Rightarrow> (Inr (), w) | Some c \<Rightarrow> apply_builder_command C c w)"

section \<open>Removal and confirmation\<close>

definition retain_open :: "(waiter \<Rightarrow> bool) \<Rightarrow> (string, waiter list) hmap \<Rightarrow> (string, waiter list) hmap" where
  "retain_open is_closed m =
    hm_retain (\<lambda>_ waiters. waiters \<noteq> [])
      (hm_map (\<lambda>_ waiters. filter (\<lambda>snd_id. \<not> is_closed snd_id) waiters) m)"

definition remove_pending_xt_from_state ::
  "coordinator \<Rightarrow> instance_id \<Rightarrow> coordinator_state \<Rightarrow> bool \<times> coordinator_state" where
  "remove_pending_xt_from_state C i s =
    (case hm_get (pending s) i of
      None \<Rightarrow> (False, s)
    | Some xt \<Rightarrow>
        (True, s\<lparr>pending := hm_remove i (pending s),
          mailbox_index := hm_remove (xt_instance_id xt) (mailbox_index s),
          submitted_fingerprints := hm_retain (\<lambda>_ pending_id. pending_id \<noteq> i) (submitted_fingerprints s),
          pending_submissions := retain_open (sender_closed C) (pending_submissions s)\<rparr>))"

definition remove_pending_xt :: "coordinator \<Rightarrow> instance_id \<Rightarrow> sys \<Rightarrow> bool \<times> sys" where
  "remove_pending_xt C i w =
    (let (b, s) = remove_pending_xt_from_state C i (sys_state w) in (b, w\<lparr>sys_state := s\<rparr>))"

definition confirm_section :: "nat \<Rightarrow> instance_id list \<Rightarrow> coordinator_state \<Rightarrow> coordinator_state" where
  "confirm_section now ids s = fold (\<lambda>i. update_xt i (\<lambda>xt. xt\<lparr>xt_confirmed_at := Some now\<rparr>)) ids s"

definition confirm_included_xts ::
  "coordinator \<Rightarrow> instance_id list \<Rightarrow> sys \<Rightarrow> (coordinator_error, unit) result \<times> sys" where
  "confirm_included_xts C ids w =
    (Inr (), w\<lparr>sys_state := confirm_section (clock C) ids (sys_state w),
       sys_nonces := fold release_confirmed ids (sys_nonces w)\<rparr>)"

section \<open>What each operation leaves alone\<close>

lemma emit_fields [simp]:
  "sys_state (emit e w) = sys_state w" "sys_nonces (emit e w) = sys_nonces w"
  "sys_queue (emit e w) = sys_queue w" "sys_log (emit e w) = sys_log w @ [e]"
  by (simp_all add: emit_def)

lemma submit_state [simp]:
  "sys_state (snd (submit_xt_to_builder C sub w)) = sys_state w"
  "sys_nonces (snd (submit_xt_to_builder C sub w)) = sys_nonces w"
  "sys_queue (snd (submit_xt_to_builder C sub w)) = sys_queue w"
  by (simp_all add: submit_xt_to_builder_def split: option.split)

lemma build_put_inbox_state [simp]:
  "sys_state (snd (build_put_inbox_transactions C i deps w)) = sys_state w"
  "sys_log (snd (build_put_inbox_transactions C i deps w)) = sys_log w"
  "sys_queue (snd (build_put_inbox_transactions C i deps w)) = sys_queue w"
  by (simp_all add: build_put_inbox_transactions_def split: option.split sum.split prod.split)

lemma build_put_inbox_inv:
  "nm_inv (sys_nonces w) \<Longrightarrow> nm_inv (sys_nonces (snd (build_put_inbox_transactions C i deps w)))"
  using nl.inv_res[of "sys_nonces w" i "length deps"]
  by (auto simp: build_put_inbox_transactions_def inv_aborted split: option.split sum.split prod.split
      dest!: arg_cong[of _ _ snd])

lemma build_put_inbox_others:
  assumes "nm_inv (sys_nonces w)" "j \<noteq> i"
  shows "owned (sys_nonces (snd (build_put_inbox_transactions C i deps w))) j \<subseteq> owned (sys_nonces w) j"
  using assms(2)
  by (auto simp: build_put_inbox_transactions_def nl.abt_own split: option.splits sum.splits prod.splits
      dest!: reserve_Inl dest: subsetD[OF nl.res_others[OF assms(1)]])

lemma apply_builder_command_state [simp]:
  "sys_state (snd (apply_builder_command C cmd w)) = sys_state w"
  "sys_queue (snd (apply_builder_command C cmd w)) = sys_queue w"
proof -
  have "sys_state (snd (apply_builder_command C cmd w)) = sys_state w \<and>
    sys_queue (snd (apply_builder_command C cmd w)) = sys_queue w"
  proof (cases cmd)
    case (Release i deps)
    obtain r w' where b: "build_put_inbox_transactions C i deps w = (r, w')" by force
    then have "sys_state w' = sys_state w" "sys_queue w' = sys_queue w"
      using build_put_inbox_state[of C i deps w] by simp_all
    then show ?thesis using Release b by (simp add: Let_def split: option.split sum.split)
  next
    case (Abort i)
    then show ?thesis by (simp add: Let_def split: option.split sum.split)
  qed
  then show "sys_state (snd (apply_builder_command C cmd w)) = sys_state w"
    "sys_queue (snd (apply_builder_command C cmd w)) = sys_queue w" by auto
qed

lemma apply_builder_command_inv:
  assumes "nm_inv (sys_nonces w)"
  shows "nm_inv (sys_nonces (snd (apply_builder_command C cmd w)))"
proof (cases cmd)
  case (Release i deps)
  obtain r w' where b: "build_put_inbox_transactions C i deps w = (r, w')" by force
  then have "nm_inv (sys_nonces w')" using build_put_inbox_inv[OF assms, of C i deps] by simp
  then show ?thesis using Release b assms by (simp add: Let_def inv_aborted split: option.split sum.split)
next
  case (Abort i)
  then show ?thesis using assms by (simp add: Let_def inv_aborted split: option.split sum.split)
qed

lemma apply_builder_command_opt_state [simp]:
  "sys_state (snd (apply_builder_command_opt C cmd w)) = sys_state w"
  "sys_queue (snd (apply_builder_command_opt C cmd w)) = sys_queue w"
  by (simp_all add: apply_builder_command_opt_def split: option.split)

lemma apply_builder_command_opt_inv:
  "nm_inv (sys_nonces w) \<Longrightarrow> nm_inv (sys_nonces (snd (apply_builder_command_opt C cmd w)))"
  by (simp add: apply_builder_command_opt_def apply_builder_command_inv split: option.split)

lemma remove_inv:
  assumes "coord_inv s"
  shows "coord_inv (snd (remove_pending_xt_from_state C i s))"
proof (cases "hm_get (pending s) i")
  case (Some xt)
  let ?t = "snd (remove_pending_xt_from_state C i s)"
  have p: "pending ?t = hm_remove i (pending s)"
    and ix: "mailbox_index ?t = hm_remove (xt_instance_id xt) (mailbox_index s)"
    and fp: "submitted_fingerprints ?t = hm_retain (\<lambda>_ p. p \<noteq> i) (submitted_fingerprints s)"
    and bf: "mailbox_buffer ?t = mailbox_buffer s"
    using Some by (simp_all add: remove_pending_xt_from_state_def)
  have "undecided_count ?t \<le> undecided_count s"
    unfolding undecided_count_def p AList.delete_eq by (rule undecided_filter_le)
  moreover have "index_inv ?t"
    unfolding index_inv_def
  proof (intro allI impI)
    fix raw j
    assume "hm_get (mailbox_index ?t) raw = Some j"
    then have raw: "raw \<noteq> xt_instance_id xt" and "hm_get (mailbox_index s) raw = Some j"
      unfolding ix by (auto simp: hm_simps split: if_splits)
    then obtain xt' where "hm_get (pending s) j = Some xt'" "xt_instance_id xt' = raw"
      using coord_inv_index[OF assms] by blast
    then show "\<exists>xt. hm_get (pending ?t) j = Some xt \<and> xt_instance_id xt = raw"
      using raw Some unfolding p by (auto simp: hm_simps)
  qed
  moreover have "fingerprint_inv ?t"
    using coord_inv_parts(3)[OF assms] unfolding fingerprint_inv_def p fp
    by (auto simp: hm_simps split: option.splits if_splits)
  moreover have "pending_inv ?t"
    using coord_inv_parts(1)[OF assms] unfolding pending_inv_def p by (auto simp: hm_simps split: if_splits)
  moreover have "buffer_inv ?t"
    using coord_inv_parts(4)[OF assms] unfolding buffer_inv_def bf by simp
  ultimately show ?thesis using assms by (simp add: coord_inv_def)
qed (use assms in \<open>simp add: remove_pending_xt_from_state_def\<close>)

lemma confirm_section_inv: "coord_inv s \<Longrightarrow> coord_inv (confirm_section now ids s)"
  unfolding confirm_section_def
proof (induction ids arbitrary: s)
  case (Cons i ids)
  have "coord_inv (update_xt i (\<lambda>xt. xt\<lparr>xt_confirmed_at := Some now\<rparr>) s)"
    using Cons.prems by (rule update_xt_inv) (simp add: xt_step_ok_def xt_inv_def)
  then show ?case using Cons.IH by simp
qed simp

lemma confirm_section_pending:
  "hm_get (pending (confirm_section now ids s)) i =
    (if i \<in> set ids then map_option (\<lambda>xt. xt\<lparr>xt_confirmed_at := Some now\<rparr>) (hm_get (pending s) i)
     else hm_get (pending s) i)"
  unfolding confirm_section_def
  by (induction ids arbitrary: s) (auto simp: update_xt_pending option.map_comp comp_def)

section \<open>The transactions of a release\<close>

lemma build_loop_Inr:
  assumes "build_put_inbox_loop b deps n acc = Inr txs" "unat n + length deps < 2 ^ 64"
  shows "\<exists>ts. txs = acc @ ts \<and> length ts = length deps \<and>
    (\<forall>k < length deps. build_put_inbox_tx_with_nonce b (deps ! k) (n + word_of_nat k) = Inr (ts ! k))"
  using assms
proof (induction b deps n acc arbitrary: txs rule: build_put_inbox_loop.induct)
  case (1 b n acc)
  then show ?case by simp
next
  case (2 b dep deps n acc)
  obtain t where t: "build_put_inbox_tx_with_nonce b dep n = Inr t"
    and rest: "build_put_inbox_loop b deps (sat_add n 1) (acc @ [t]) = Inr txs"
    using "2.prems"(1) by (auto split: sum.splits)
  have "unat (sat_add n 1) = unat n + 1" using "2.prems"(2) by (simp add: sat_add_unat)
  then have n1: "sat_add n 1 = n + 1" "unat (n + 1) = unat n + 1"
    using "2.prems"(2) by (simp_all add: word_unat_eq_iff unat_word_ariths)
  obtain ts where ts: "txs = (acc @ [t]) @ ts" "length ts = length deps"
    "\<forall>k < length deps. build_put_inbox_tx_with_nonce b (deps ! k) (n + 1 + word_of_nat k) = Inr (ts ! k)"
    using "2.IH"[OF t rest] "2.prems"(2) n1 by auto
  have "build_put_inbox_tx_with_nonce b ((dep # deps) ! k) (n + word_of_nat k) = Inr ((t # ts) ! k)"
    if "k < length (dep # deps)" for k
    using that t ts(3) by (cases k) (auto simp: add.assoc)
  then show ?case using ts by (intro exI[of _ "t # ts"]) simp
qed

lemma build_put_inbox_err_owned:
  assumes "nm_inv (sys_nonces w)" "build_put_inbox_transactions C i deps w = (Inl e, w')"
  shows "owned (sys_nonces w') j \<subseteq> owned (sys_nonces w) j"
  using assms
  by (auto simp: build_put_inbox_transactions_def nl.abt_own split: option.splits sum.splits prod.splits if_splits
      dest!: reserve_Inl dest: subsetD[OF nl.res_others[OF assms(1)]])

section \<open>A concrete coordinator\<close>

text \<open>Used to exhibit that the hypotheses of the theorems can hold.\<close>

definition demo_builder :: xt_builder_client where
  "demo_builder = \<lparr>submit_locked_xt = \<lambda>i p s t. Inr (), release_xt = \<lambda>i t. Inr (), abort_xt = \<lambda>i. Inr ()\<rparr>"

definition refusing_builder :: xt_builder_client where
  "refusing_builder = \<lparr>submit_locked_xt = \<lambda>i p s t. Inl (BuilderControl ''refused''),
     release_xt = \<lambda>i t. Inl (BuilderControl ''refused''), abort_xt = \<lambda>i. Inl (BuilderControl ''refused'')\<rparr>"

definition demo_put_inbox :: put_inbox_builder where
  "demo_put_inbox = \<lparr>signer_nonce_floor = Inr 7,
     build_put_inbox_tx_with_nonce = \<lambda>d n. Inr [ucast n, ucast (dep_source_chain_id d)]\<rparr>"

definition demo_coordinator :: coordinator where
  "demo_coordinator = \<lparr>ext = toy_externals, chain_id = 1, clock = 10, simulator = None, publisher = None,
     mailbox_sender = None, has_mailbox_queue = True, has_peer_coordinator = True,
     put_inbox = Some demo_put_inbox, builder_client = Some demo_builder,
     verification = \<lparr>verification_enabled = False, verification_url = [], verification_timeout_ms = 0\<rparr>,
     verification_client = None, permission = None, decode_sender_nonce = \<lambda>t. None,
     encode_xt_request = \<lambda>r. concat (map (\<lambda>t. concat (tr_transactions t)) r),
     encode_wire_message = \<lambda>r. concat (map (\<lambda>t. concat (tr_transactions t)) r),
     spec_instance_try_from = \<lambda>m. Inr \<lparr>inst_id = si_instance_id m, inst_period_id = si_period_id m,
       inst_sequence_number = si_sequence_number m,
       inst_xt_request = (case si_xt_request m of None \<Rightarrow> [] | Some r \<Rightarrow> r)\<rparr>,
     chains_from_request = map tr_chain_id, sender_closed = \<lambda>s. False\<rparr>"

lemma demo_fields [simp]:
  "builder_client demo_coordinator = Some demo_builder" "put_inbox demo_coordinator = Some demo_put_inbox"
  "signer_nonce_floor demo_put_inbox = Inr 7"
  by (simp_all add: demo_coordinator_def demo_put_inbox_def)

section \<open>Properties\<close>

text \<open>C13: a successful release hands the builder one signed transaction per dependency of the local
  chain, in order, with consecutive nonces that are exactly the range reserved for the XT, and no
  other XT owns any of them.\<close>

theorem release_uses_reserved_nonces:
  assumes "nm_inv (sys_nonces w)" "builder_client C = Some bc" "put_inbox C = Some pib" "deps \<noteq> []"
    and "apply_builder_command C (Release i deps) w = (Inr (), w')"
    and "\<forall>n. fst (reserve i (length deps) (signer_nonce_floor pib) (sys_nonces w)) = Inr n
      \<longrightarrow> unat n + length deps < 2 ^ 64"
  shows "\<exists>n txs. sys_log w' = sys_log w @ [EBuilderRelease i txs] \<and> length txs = length deps \<and>
    owned (sys_nonces w') i = {n..<n + word_of_nat (length deps)} \<and>
    (\<forall>k < length deps. build_put_inbox_tx_with_nonce pib (deps ! k) (n + word_of_nat k) = Inr (txs ! k)) \<and>
    (\<forall>j. j \<noteq> i \<longrightarrow> owned (sys_nonces w') i \<inter> owned (sys_nonces w') j = {})"
proof -
  obtain txs w1 where b: "build_put_inbox_transactions C i deps w = (Inr txs, w1)"
    and w': "w' = emit (EBuilderRelease i txs) w1"
    using assms(2,5) by (auto simp: Let_def split: prod.splits sum.splits)
  obtain n nm where r: "reserve i (length deps) (signer_nonce_floor pib) (sys_nonces w) = (Inr n, nm)"
    and l: "build_put_inbox_loop pib deps n [] = Inr txs" and w1: "w1 = w\<lparr>sys_nonces := nm\<rparr>"
    using b assms(3,4) by (auto simp: build_put_inbox_transactions_def split: prod.splits sum.splits)
  have bound: "unat n + length deps < 2 ^ 64" using assms(6) r by simp
  then have "unat (word_of_nat (length deps) :: u64) = length deps" by (simp add: unat_of_nat)
  then have "sat_add n (word_of_nat (length deps)) = n + word_of_nat (length deps)"
    using bound by (simp add: sat_add_unat word_unat_eq_iff unat_word_ariths)
  then have own: "owned nm i = {n..<n + word_of_nat (length deps)}"
    using nl.res_own[OF assms(1) r] by simp
  have excl: "\<forall>j. j \<noteq> i \<longrightarrow> owned nm i \<inter> owned nm j = {}"
    using nl.res_exclusive[OF assms(1) r] by blast
  show ?thesis
    using build_loop_Inr[OF l bound] own excl w' w1 by (intro exI[of _ n] exI[of _ txs]) auto
qed

theorem release_uses_reserved_nonces_witness:
  "\<exists>n txs w'. apply_builder_command demo_coordinator (Release ''a'' [demo_dependency, demo_dependency]) sys_new
      = (Inr (), w') \<and> sys_log w' = [EBuilderRelease ''a'' txs] \<and> length txs = 2 \<and>
      owned (sys_nonces w') ''a'' = {n..<n + 2}"
proof -
  let ?r = "apply_builder_command demo_coordinator (Release ''a'' [demo_dependency, demo_dependency]) sys_new"
  have ok: "?r = (Inr (), snd ?r)" by code_simp
  have n: "fst (reserve ''a'' (length [demo_dependency, demo_dependency])
      (signer_nonce_floor demo_put_inbox) (sys_nonces sys_new)) = Inr 7"
    by code_simp
  show ?thesis
    using release_uses_reserved_nonces[OF _ _ _ _ ok] ok n
    by (fastforce simp: sys_new_def)
qed



text \<open>An abort returns the XT's nonces to the pool only when the builder acknowledges it; when the
  builder's abort call fails the reservation stays live and nothing else changes.\<close>

lemma abort_nonces:
  assumes "apply_builder_command C (Abort i) w = (r, w')"
  shows "case r of
      Inr _ \<Rightarrow> (\<forall>j. owned (sys_nonces w') j = (if j = i then {} else owned (sys_nonces w) j))
    | Inl _ \<Rightarrow> sys_nonces w' = sys_nonces w"
  using assms by (auto simp: Let_def nl.abt_own split: option.splits sum.splits)

lemma abort_nonces_example:
  "\<exists>w'. apply_builder_command (demo_coordinator\<lparr>builder_client := Some refusing_builder\<rparr>) (Abort ''a'') sys_new
      = (Inl (BuilderControl ''refused''), w') \<and> sys_nonces w' = sys_nonces sys_new"
proof -
  let ?r = "apply_builder_command (demo_coordinator\<lparr>builder_client := Some refusing_builder\<rparr>) (Abort ''a'') sys_new"
  have err: "?r = (Inl (BuilderControl ''refused''), snd ?r)" by code_simp
  then show ?thesis using abort_nonces[OF err] by auto
qed

end
