(* ===== verification/Trace_Parser.thy ===== *)
theory Trace_Parser
  imports Primitives
begin

text \<open>
  The call-trace parser, \<open>mailbox/src/parser.rs\<close>, with the types of
  \<open>mailbox/src/types.rs\<close> and the selector of \<open>mailbox/src/contract.rs\<close>.  A trace is a
  JSON value.  The walk keeps an explicit stack; it is proved equal to the
  depth-bounded pre-order traversal of the call tree.

  Address parsing and the ABI decoders of the contract bindings are the fields of
  \<open>mailbox_abi\<close>.
\<close>

section \<open>Data\<close>

datatype json =
    JNull
  | JBool bool
  | JNumber int
  | JString string
  | JArray "json list"
  | JObject "(string \<times> json) list"

fun json_get :: "json \<Rightarrow> string \<Rightarrow> json option" where
  "json_get (JObject m) k = map_of m k"
| "json_get _ k = None"

fun json_as_str :: "json \<Rightarrow> string option" where
  "json_as_str (JString s) = Some s"
| "json_as_str _ = None"

fun json_as_array :: "json \<Rightarrow> json list option" where
  "json_as_array (JArray xs) = Some xs"
| "json_as_array _ = None"

definition str_field :: "json \<Rightarrow> string \<Rightarrow> string option" where
  "str_field node k = Option.bind (json_get node k) json_as_str"

record message_header =
  hdr_chain_src :: u256
  hdr_chain_dest :: u256
  hdr_sender :: address
  hdr_receiver :: address
  hdr_session_id :: u256
  hdr_label :: string

record mailbox_abi =
  parse_address :: "string \<Rightarrow> address option"
  write_selector :: bytes
  read_selector :: bytes
  decode_write_call :: "bytes \<Rightarrow> (message_header \<times> bytes) option"
  decode_read_call :: "bytes \<Rightarrow> message_header option"

datatype mailbox_call_type = Read | Write

record mailbox_call =
  call_type :: mailbox_call_type
  call_source_chain :: u64
  call_dest_chain :: u64
  call_sender :: address
  call_receiver :: address
  call_label :: string
  call_data :: bytes
  call_session_id :: u256
  call_reverted :: bool

record simulation_state =
  st_reads :: "mailbox_call list"
  st_writes :: "mailbox_call list"

definition simulation_state_default :: simulation_state where
  "simulation_state_default = \<lparr>st_reads = [], st_writes = []\<rparr>"

definition max_trace_depth :: nat where
  "max_trace_depth = 1024"

section \<open>Decoding one call\<close>

text \<open>\<open>str::get(..n)\<close>: the prefix, if it ends on a character boundary.\<close>

definition str_prefix :: "nat \<Rightarrow> string \<Rightarrow> string option" where
  "str_prefix n s =
    (if n = length s \<or> n < length s \<and> \<not> ((128 :: nat) \<le> of_char (s ! n) \<and> of_char (s ! n) < (192 :: nat))
     then Some (take n s) else None)"

definition strip_0x :: "string \<Rightarrow> string" where
  "strip_0x s = (if take 2 s = ''0x'' then drop 2 s else s)"

function trim_start_0x :: "string \<Rightarrow> string" where
  "trim_start_0x s = (if take 2 s = ''0x'' then trim_start_0x (drop 2 s) else s)"
  by auto

termination
proof (relation "measure length")
  fix s :: string
  assume "take 2 s = ''0x''"
  then have "s \<noteq> []" by auto
  then show "(drop 2 s, s) \<in> measure length" by (cases s) auto
qed simp

declare trim_start_0x.simps [simp del]

definition calldata_selector :: "externals \<Rightarrow> string \<Rightarrow> bytes option" where
  "calldata_selector X input =
    (case str_prefix 8 (strip_0x input) of
      None \<Rightarrow> None
    | Some selector_hex \<Rightarrow>
        (case hex_decode X selector_hex of
          None \<Rightarrow> None
        | Some bs \<Rightarrow> if length bs = 4 then Some bs else None))"

definition u64_try_from :: "u256 \<Rightarrow> u64 option" where
  "u64_try_from x = (if unat x < 2 ^ 64 then Some (word_of_nat (unat x)) else None)"

definition decode_write ::
  "externals \<Rightarrow> mailbox_abi \<Rightarrow> string \<Rightarrow> address \<Rightarrow> u64 \<Rightarrow> bool \<Rightarrow> mailbox_call option" where
  "decode_write X A input caller local_chain_id reverted =
    (case hex_decode X (trim_start_0x input) of
      None \<Rightarrow> None
    | Some data \<Rightarrow>
        (case decode_write_call A data of
          None \<Rightarrow> None
        | Some (header, payload) \<Rightarrow>
            (case u64_try_from (hdr_chain_dest header) of
              None \<Rightarrow> None
            | Some dest \<Rightarrow> Some
                \<lparr>call_type = Write, call_source_chain = local_chain_id, call_dest_chain = dest,
                 call_sender = hdr_sender header, call_receiver = hdr_receiver header,
                 call_label = hdr_label header, call_data = payload,
                 call_session_id = hdr_session_id header, call_reverted = reverted\<rparr>)))"

definition decode_read ::
  "externals \<Rightarrow> mailbox_abi \<Rightarrow> string \<Rightarrow> u64 \<Rightarrow> bool \<Rightarrow> mailbox_call option" where
  "decode_read X A input local_chain_id reverted =
    (case hex_decode X (trim_start_0x input) of
      None \<Rightarrow> None
    | Some data \<Rightarrow>
        (case decode_read_call A data of
          None \<Rightarrow> None
        | Some header \<Rightarrow>
            (case u64_try_from (hdr_chain_src header) of
              None \<Rightarrow> None
            | Some src \<Rightarrow> Some
                \<lparr>call_type = Read, call_source_chain = src, call_dest_chain = local_chain_id,
                 call_sender = hdr_sender header, call_receiver = hdr_receiver header,
                 call_label = hdr_label header, call_data = [],
                 call_session_id = hdr_session_id header, call_reverted = reverted\<rparr>)))"

definition visit_node ::
  "externals \<Rightarrow> mailbox_abi \<Rightarrow> address \<Rightarrow> u64 \<Rightarrow> json \<Rightarrow> simulation_state \<Rightarrow> simulation_state" where
  "visit_node X A mailbox_address local_chain_id node state =
    (let from_str = (case str_field node ''from'' of None \<Rightarrow> [] | Some s \<Rightarrow> s);
         to_str = (case str_field node ''to'' of None \<Rightarrow> [] | Some s \<Rightarrow> s);
         input = (case str_field node ''input'' of None \<Rightarrow> [] | Some s \<Rightarrow> s)
     in case parse_address A to_str of
       None \<Rightarrow> state
     | Some to_addr \<Rightarrow>
         if to_addr \<noteq> mailbox_address \<or> length input < 10 then state
         else
           let selector = calldata_selector X input;
               reverted = (case str_field node ''error'' of None \<Rightarrow> False | Some e \<Rightarrow> e \<noteq> [])
           in if selector = Some (write_selector A) then
                (case parse_address A from_str of
                  None \<Rightarrow> state
                | Some caller \<Rightarrow>
                    (case decode_write X A input caller local_chain_id reverted of
                      None \<Rightarrow> state
                    | Some call \<Rightarrow> state\<lparr>st_writes := st_writes state @ [call]\<rparr>))
              else if selector = Some (read_selector A) then
                (case decode_read X A input local_chain_id reverted of
                  None \<Rightarrow> state
                | Some call \<Rightarrow> state\<lparr>st_reads := st_reads state @ [call]\<rparr>)
              else state)"

section \<open>The walk\<close>

definition children :: "json \<Rightarrow> json list" where
  "children node = (case Option.bind (json_get node ''calls'') json_as_array of None \<Rightarrow> [] | Some cs \<Rightarrow> cs)"

lemma children_smaller: "sum_list (map (Suc \<circ> size) (children node)) \<le> size node"
proof (cases "children node = []")
  case False
  then obtain m cs where node: "node = JObject m" and "map_of m ''calls'' = Some (JArray cs)"
    and ch: "children node = cs"
    by (cases node) (auto simp: children_def elim!: json_as_array.elims split: option.splits bind_splits)
  then have "(''calls'', JArray cs) \<in> set m" by (simp add: map_of_SomeD)
  then have "size (JArray cs) \<le> size_list (size_prod (\<lambda>x. 0) size) m"
    by (intro size_list_estimation'[of "(''calls'', JArray cs)"]) auto
  moreover have "sum_list (map (Suc \<circ> size) cs) = size_list size cs" by (induction cs) auto
  ultimately show ?thesis using node ch by simp
qed simp

lemma fold_push: "fold (\<lambda>c stk. (c, d) # stk) (rev cs) stack = map (\<lambda>c. (c, d)) cs @ stack"
  by (induction cs arbitrary: stack) auto

text \<open>The stack of nodes still to visit; its head is the top.\<close>

function parse_loop ::
  "externals \<Rightarrow> mailbox_abi \<Rightarrow> address \<Rightarrow> u64 \<Rightarrow> (json \<times> nat) list \<Rightarrow> simulation_state \<Rightarrow> simulation_state" where
  "parse_loop X A mb chain [] state = state"
| "parse_loop X A mb chain ((node, depth) # stack) state =
    (let state = visit_node X A mb chain node state in
     if depth \<ge> max_trace_depth then parse_loop X A mb chain stack state
     else parse_loop X A mb chain
       (fold (\<lambda>child stk. (child, depth + 1) # stk) (rev (children node)) stack) state)"
  by pat_completeness auto

termination
proof (relation "measure (\<lambda>(X, A, mb, chain, stack, state). sum_list (map (Suc \<circ> size \<circ> fst) stack))")
  fix X A mb chain node depth stack state x
  assume "\<not> max_trace_depth \<le> depth"
  show "((X, A, mb, chain, fold (\<lambda>child stk. (child, depth + 1) # stk) (rev (children node)) stack, x),
     X, A, mb, chain, (node, depth) # stack, state)
    \<in> measure (\<lambda>(X, A, mb, chain, stack, state). sum_list (map (Suc \<circ> size \<circ> fst) stack))"
    using children_smaller[of node] by (simp add: fold_push comp_def)
qed auto

definition parse_call_trace ::
  "externals \<Rightarrow> mailbox_abi \<Rightarrow> json \<Rightarrow> address \<Rightarrow> u64 \<Rightarrow> simulation_state" where
  "parse_call_trace X A trace mailbox_address local_chain_id =
    parse_loop X A mailbox_address local_chain_id [(trace, 0)] simulation_state_default"

section \<open>Equivalence with the pre-order traversal\<close>

text \<open>Pre-order of the call tree, cut off below the given depth.\<close>

primrec preorder :: "nat \<Rightarrow> json \<Rightarrow> json list" where
  "preorder 0 node = [node]"
| "preorder (Suc r) node = node # concat (map (preorder r) (children node))"

lemma parse_loop_preorder:
  "\<forall>(n, d) \<in> set stack. d \<le> max_trace_depth \<Longrightarrow>
   parse_loop X A mb chain stack state =
     fold (visit_node X A mb chain) (concat (map (\<lambda>(n, d). preorder (max_trace_depth - d) n) stack)) state"
proof (induction X A mb chain stack state rule: parse_loop.induct)
  case (1 X A mb chain state)
  then show ?case by simp
next
  case (2 X A mb chain node depth stack state)
  show ?case
  proof (cases "depth \<ge> max_trace_depth")
    case True
    with 2 have "depth = max_trace_depth" by simp
    with True 2 show ?thesis by simp
  next
    case False
    then have "max_trace_depth - depth = Suc (max_trace_depth - (depth + 1))" by simp
    then have "preorder (max_trace_depth - depth) node
      = node # concat (map (preorder (max_trace_depth - (depth + 1))) (children node))" by simp
    moreover have "\<forall>(n, d) \<in> set (map (\<lambda>c. (c, depth + 1)) (children node) @ stack). d \<le> max_trace_depth"
      using False 2(3) by auto
    ultimately show ?thesis using False 2(2)[OF refl False] by (simp add: fold_push comp_def)
  qed
qed

lemma decode_write_local:
  "decode_write X A inp caller chain r = Some c \<Longrightarrow> call_source_chain c = chain \<and> call_type c = Write"
  by (auto simp: decode_write_def split: option.splits)

lemma decode_read_local:
  "decode_read X A inp chain r = Some c \<Longrightarrow> call_dest_chain c = chain \<and> call_type c = Read"
  by (auto simp: decode_read_def split: option.splits)

definition calls_local :: "u64 \<Rightarrow> simulation_state \<Rightarrow> bool" where
  "calls_local chain s \<longleftrightarrow>
    list_all (\<lambda>c. call_source_chain c = chain \<and> call_type c = Write) (st_writes s) \<and>
    list_all (\<lambda>c. call_dest_chain c = chain \<and> call_type c = Read) (st_reads s)"

lemma push_write_local:
  "calls_local chain s \<Longrightarrow> decode_write X A inp caller chain r = Some c \<Longrightarrow>
    calls_local chain (s\<lparr>st_writes := st_writes s @ [c]\<rparr>)"
  by (simp add: calls_local_def decode_write_local)

lemma push_read_local:
  "calls_local chain s \<Longrightarrow> decode_read X A inp chain r = Some c \<Longrightarrow>
    calls_local chain (s\<lparr>st_reads := st_reads s @ [c]\<rparr>)"
  by (simp add: calls_local_def decode_read_local)

lemma visit_node_local:
  assumes "calls_local chain s"
  shows "calls_local chain (visit_node X A mb chain n s)"
proof -
  define from_str where "from_str = (case str_field n ''from'' of None \<Rightarrow> [] | Some s \<Rightarrow> s)"
  define to_str where "to_str = (case str_field n ''to'' of None \<Rightarrow> [] | Some s \<Rightarrow> s)"
  define inp where "inp = (case str_field n ''input'' of None \<Rightarrow> [] | Some s \<Rightarrow> s)"
  define rv where "rv = (case str_field n ''error'' of None \<Rightarrow> False | Some e \<Rightarrow> e \<noteq> [])"
  show ?thesis
    unfolding visit_node_def Let_def from_str_def[symmetric] to_str_def[symmetric] inp_def[symmetric]
      rv_def[symmetric]
    by (simp add: assms push_write_local[OF assms] push_read_local[OF assms] split: option.split)
qed

lemma fold_visit_local:
  "calls_local chain s \<Longrightarrow> calls_local chain (fold (visit_node X A mb chain) ns s)"
proof (induction ns arbitrary: s)
  case (Cons n ns)
  then show ?case by (simp only: fold_Cons comp_apply visit_node_local)
qed (simp only: fold_Nil id_apply)

section \<open>Properties\<close>

text \<open>C18: the iterative walk with its explicit stack visits exactly the nodes of the pre-order
  traversal of the call tree, in that order, down to depth 1024 and no further, and returns after
  finitely many steps on every trace.\<close>

theorem parse_call_trace_preorder:
  "parse_call_trace X A trace mb chain =
     fold (visit_node X A mb chain) (preorder max_trace_depth trace) simulation_state_default"
  unfolding parse_call_trace_def by (subst parse_loop_preorder) auto

text \<open>Every parsed write leaves the local chain and every parsed read is addressed to it,
  whatever the trace claims.\<close>

lemma parse_call_trace_local:
  "list_all (\<lambda>c. call_source_chain c = chain \<and> call_type c = Write)
     (st_writes (parse_call_trace X A trace mb chain)) \<and>
   list_all (\<lambda>c. call_dest_chain c = chain \<and> call_type c = Read)
     (st_reads (parse_call_trace X A trace mb chain))"
proof -
  have "calls_local chain simulation_state_default"
    by (simp add: calls_local_def simulation_state_default_def)
  then have "calls_local chain (parse_call_trace X A trace mb chain)"
    unfolding parse_call_trace_def by (subst parse_loop_preorder) (auto intro: fold_visit_local)
  then show ?thesis by (simp only: calls_local_def)
qed

end
