(* ===== verification/Voting.thy ===== *)
theory Voting
  imports Builder_Control
begin

text \<open>
  Votes and decisions: \<open>maybe_make_standalone_decision\<close> and \<open>is_publisher_connected\<close> of
  \<open>coordinator/src/coordinator.rs\<close>, the handlers \<open>handlers/decision.rs\<close> and
  \<open>handlers/peer_vote.rs\<close>, and \<open>send_vote\<close> of \<open>pipeline/simulation.rs\<close>.

  A handler holds the state lock for a part of its body.  That part is a function
  on \<open>coordinator_state\<close> (a \<open>section\<close>), and the handler composes it with the calls
  made after the lock is released.
\<close>

section \<open>Counting votes\<close>

definition tally :: "coordinator \<Rightarrow> pending_xt \<Rightarrow> nat \<times> bool" where
  "tally C xt =
    (let local_part = (case xt_local_vote xt of None \<Rightarrow> (0, False) | Some l \<Rightarrow> (1, \<not> l))
     in fold (\<lambda>(cid, vote) (collected, has_abort_vote).
          if cid = chain_id C then (collected, has_abort_vote)
          else (collected + 1, has_abort_vote \<or> \<not> vote)) (xt_peer_votes xt) local_part)"

definition maybe_make_standalone_decision ::
  "coordinator \<Rightarrow> pending_xt \<Rightarrow> (bool \<times> nat \<times> nat) option \<times> pending_xt" where
  "maybe_make_standalone_decision C xt =
    (if xt_decision xt \<noteq> None then (None, xt)
     else
       let expected = length (xt_raw_txs xt);
           (collected, has_abort_vote) = tally C xt
       in if has_abort_vote then (Some (False, collected, expected), record_decision (clock C) False xt)
          else if expected > 0 \<and> collected \<ge> expected
          then (Some (True, collected, expected), record_decision (clock C) True xt)
          else (None, xt))"

section \<open>Decisions from the publisher\<close>

definition on_decision_section ::
  "coordinator \<Rightarrow> instance_id \<Rightarrow> bool \<Rightarrow> coordinator_state
    \<Rightarrow> (coordinator_error, xt_builder_command option) result \<times> coordinator_state" where
  "on_decision_section C i d s =
    (case hm_get (pending s) i of
      None \<Rightarrow> (Inl (InstanceNotFound i), s)
    | Some xt \<Rightarrow>
        if xt_decision xt \<noteq> None then (Inr None, s)
        else
          let chain_ids = hm_keys (xt_raw_txs xt);
              xt = record_decision (clock C) d xt;
              s = s\<lparr>pending := hm_insert i xt (pending s)\<rparr>;
              builder_command = local_builder_command C xt d;
              s = (if \<not> d then s\<lparr>chain_overlay := fold hm_remove chain_ids (chain_overlay s)\<rparr> else s)
          in (Inr builder_command, s))"

definition on_decision :: "coordinator \<Rightarrow> instance_id \<Rightarrow> bool \<Rightarrow> sys \<Rightarrow> (coordinator_error, unit) result \<times> sys" where
  "on_decision C i d w =
    (case on_decision_section C i d (sys_state w) of
      (Inl err, s) \<Rightarrow> (Inl err, w\<lparr>sys_state := s\<rparr>)
    | (Inr cmd, s) \<Rightarrow> apply_builder_command_opt C cmd (w\<lparr>sys_state := s\<rparr>))"

section \<open>Votes from peers\<close>

definition peer_vote_section ::
  "coordinator \<Rightarrow> instance_id \<Rightarrow> u64 \<Rightarrow> bool \<Rightarrow> coordinator_state
    \<Rightarrow> (coordinator_error, xt_builder_command option) result \<times> coordinator_state" where
  "peer_vote_section C i cid vote s =
    (case hm_get (pending s) i of
      None \<Rightarrow> (Inl (InstanceNotFound i), s)
    | Some xt \<Rightarrow>
        if xt_decision xt \<noteq> None then (Inr None, s)
        else if hm_contains (xt_peer_votes xt) cid then (Inr None, s)
        else
          let xt = xt\<lparr>xt_peer_votes := hm_insert cid vote (xt_peer_votes xt)\<rparr>;
              (made, xt) = maybe_make_standalone_decision C xt;
              builder_command = (case made of None \<Rightarrow> None | Some (d, _, _) \<Rightarrow> local_builder_command C xt d)
          in (Inr builder_command, s\<lparr>pending := hm_insert i xt (pending s)\<rparr>))"

definition handle_peer_vote ::
  "coordinator \<Rightarrow> instance_id \<Rightarrow> u64 \<Rightarrow> bool \<Rightarrow> sys \<Rightarrow> (coordinator_error, unit) result \<times> sys" where
  "handle_peer_vote C i cid vote w =
    (case peer_vote_section C i cid vote (sys_state w) of
      (Inl err, s) \<Rightarrow> (Inl err, w\<lparr>sys_state := s\<rparr>)
    | (Inr cmd, s) \<Rightarrow> apply_builder_command_opt C cmd (w\<lparr>sys_state := s\<rparr>))"

section \<open>The local vote\<close>

text \<open>
  The section returns \<open>None\<close> when the XT is gone or already voted on, and otherwise
  the raw instance id and the builder command.
\<close>

definition send_vote_section ::
  "coordinator \<Rightarrow> instance_id \<Rightarrow> bool \<Rightarrow> coordinator_state
    \<Rightarrow> (bytes \<times> xt_builder_command option) option \<times> coordinator_state" where
  "send_vote_section C i vote s =
    (case hm_get (pending s) i of
      None \<Rightarrow> (None, s)
    | Some xt \<Rightarrow>
        if xt_local_vote xt \<noteq> None then (None, s)
        else
          let xt = xt\<lparr>xt_simulated_at := Some (clock C), xt_vote_sent := True, xt_local_vote := Some vote,
                     xt_locked_chains := insert (chain_id C) (xt_locked_chains xt)\<rparr>;
              (made, xt) = (if \<not> is_publisher_connected C then maybe_make_standalone_decision C xt else (None, xt));
              builder_command = (case made of None \<Rightarrow> None | Some (d, _, _) \<Rightarrow> local_builder_command C xt d)
          in (Some (xt_instance_id xt, builder_command), s\<lparr>pending := hm_insert i xt (pending s)\<rparr>))"

definition send_vote :: "coordinator \<Rightarrow> instance_id \<Rightarrow> bool \<Rightarrow> sys \<Rightarrow> (coordinator_error, unit) result \<times> sys" where
  "send_vote C i vote w =
    (case send_vote_section C i vote (sys_state w) of
      (None, s) \<Rightarrow> (Inr (), w\<lparr>sys_state := s\<rparr>)
    | (Some (instance_bytes, cmd), s) \<Rightarrow>
        (case apply_builder_command_opt C cmd (w\<lparr>sys_state := s\<rparr>) of
          (Inl err, w) \<Rightarrow> (Inl err, w)
        | (Inr _, w) \<Rightarrow>
            if is_publisher_connected C then (Inr (), emit (EPublisherVote instance_bytes vote) w)
            else if has_peer_coordinator C then (Inr (), emit (EPeerVote i (chain_id C) vote) w)
            else (Inr (), w)))"

section \<open>What a tally says\<close>

definition counted_peers :: "coordinator \<Rightarrow> pending_xt \<Rightarrow> (u64 \<times> bool) list" where
  "counted_peers C xt = filter (\<lambda>(cid, _). cid \<noteq> chain_id C) (xt_peer_votes xt)"

lemma tally_counts:
  "tally C xt =
    ((case xt_local_vote xt of None \<Rightarrow> 0 | Some _ \<Rightarrow> 1) + length (counted_peers C xt),
     xt_local_vote xt = Some False \<or> (\<exists>(cid, v) \<in> set (counted_peers C xt). \<not> v))"
proof -
  have "fold (\<lambda>(cid, vote) (n, ab). if cid = chain_id C then (n, ab) else (n + 1, ab \<or> \<not> vote)) ps (n, ab)
    = (n + length (filter (\<lambda>(cid, _). cid \<noteq> chain_id C) ps),
       ab \<or> (\<exists>(cid, v) \<in> set (filter (\<lambda>(cid, _). cid \<noteq> chain_id C) ps). \<not> v))" for ps n ab
    by (induction ps arbitrary: n ab) auto
  then show ?thesis
    by (auto simp: tally_def counted_peers_def Let_def split: option.splits)
qed

definition abort_vote :: "coordinator \<Rightarrow> pending_xt \<Rightarrow> bool" where
  "abort_vote C xt \<longleftrightarrow> xt_local_vote xt = Some False \<or>
     (\<exists>cid. cid \<noteq> chain_id C \<and> hm_get (xt_peer_votes xt) cid = Some False)"

lemma tally_abort: "hm_wf (xt_peer_votes xt) \<Longrightarrow> snd (tally C xt) = abort_vote C xt"
  by (auto simp: tally_counts abort_vote_def counted_peers_def wf_map_of)

lemma maybe_fields [simp]:
  "xt_id (snd (maybe_make_standalone_decision C xt)) = xt_id xt"
  "xt_instance_id (snd (maybe_make_standalone_decision C xt)) = xt_instance_id xt"
  "xt_raw_txs (snd (maybe_make_standalone_decision C xt)) = xt_raw_txs xt"
  "xt_local_vote (snd (maybe_make_standalone_decision C xt)) = xt_local_vote xt"
  "xt_peer_votes (snd (maybe_make_standalone_decision C xt)) = xt_peer_votes xt"
  by (simp_all add: maybe_make_standalone_decision_def Let_def split: prod.split)

lemma maybe_inv: "xt_inv xt \<Longrightarrow> xt_inv (snd (maybe_make_standalone_decision C xt))"
  by (simp add: maybe_make_standalone_decision_def Let_def split: prod.split)

lemma maybe_keeps: "xt_decision xt = Some d \<Longrightarrow> maybe_make_standalone_decision C xt = (None, xt)"
  by (simp add: maybe_make_standalone_decision_def)

lemma maybe_decision_None:
  "xt_decision (snd (maybe_make_standalone_decision C xt)) = None \<Longrightarrow> xt_decision xt = None"
  by (auto simp: maybe_make_standalone_decision_def Let_def split: prod.splits if_splits)

lemma maybe_decision:
  assumes "xt_decision xt = None" "hm_wf (xt_peer_votes xt)"
  shows "xt_decision (snd (maybe_make_standalone_decision C xt)) =
    (if abort_vote C xt then Some False
     else if 0 < length (xt_raw_txs xt) \<and> length (xt_raw_txs xt) \<le> fst (tally C xt) then Some True
     else None)"
  using assms tally_abort[OF assms(2), of C]
  by (auto simp: maybe_make_standalone_decision_def Let_def split: prod.splits)

lemma maybe_made:
  "fst (maybe_make_standalone_decision C xt) = Some (d, n, m) \<Longrightarrow>
    xt_decision xt = None \<and> xt_decision (snd (maybe_make_standalone_decision C xt)) = Some d"
  by (auto simp: maybe_make_standalone_decision_def Let_def split: prod.splits if_splits)

section \<open>The sections keep the invariant\<close>

lemma set_pending_eq: "hm_get (pending s) i = Some xt \<Longrightarrow>
    s\<lparr>pending := hm_insert i (f xt) (pending s)\<rparr> = update_xt i f s"
  by (simp add: update_xt_def)

lemma chain_overlay_inv [simp]: "coord_inv (s\<lparr>chain_overlay := c\<rparr>) = coord_inv s"
  by (simp add: inv_defs undecided_count_def)

lemma on_decision_section_inv:
  assumes "coord_inv s"
  shows "coord_inv (snd (on_decision_section C i d s))"
proof (cases "hm_get (pending s) i")
  case (Some xt)
  have "coord_inv (update_xt i (record_decision (clock C) d) s)"
    using assms by (rule update_xt_inv) (simp add: xt_step_ok_def)
  then show ?thesis
    using Some assms set_pending_eq[OF Some, of "record_decision (clock C) d"]
    by (cases d) (simp_all add: on_decision_section_def Let_def)
qed (use assms in \<open>simp add: on_decision_section_def\<close>)

lemma peer_vote_section_eq:
  "snd (peer_vote_section C i cid v s) = s \<or>
   snd (peer_vote_section C i cid v s) =
     update_xt i (\<lambda>xt. snd (maybe_make_standalone_decision C
       (xt\<lparr>xt_peer_votes := hm_insert cid v (xt_peer_votes xt)\<rparr>))) s"
  by (auto simp: peer_vote_section_def update_xt_def Let_def split: option.splits prod.splits)

lemma peer_vote_section_inv:
  assumes "coord_inv s"
  shows "coord_inv (snd (peer_vote_section C i cid v s))"
proof -
  have "xt_inv (xt\<lparr>xt_peer_votes := hm_insert cid v (xt_peer_votes xt)\<rparr>)" if "xt_inv xt" for xt
    using that by (simp add: xt_inv_def)
  then have "coord_inv (update_xt i (\<lambda>xt. snd (maybe_make_standalone_decision C
       (xt\<lparr>xt_peer_votes := hm_insert cid v (xt_peer_votes xt)\<rparr>))) s)"
    using assms by (intro update_xt_inv) (auto simp: xt_step_ok_def maybe_inv dest: maybe_decision_None)
  then show ?thesis using peer_vote_section_eq[of C i cid v s] assms by auto
qed

definition cast_vote :: "coordinator \<Rightarrow> bool \<Rightarrow> pending_xt \<Rightarrow> pending_xt" where
  "cast_vote C v xt =
    (let xt = xt\<lparr>xt_simulated_at := Some (clock C), xt_vote_sent := True, xt_local_vote := Some v,
               xt_locked_chains := insert (chain_id C) (xt_locked_chains xt)\<rparr>
     in if is_publisher_connected C then xt else snd (maybe_make_standalone_decision C xt))"

lemma cast_vote_ok: "xt_step_ok (cast_vote C v) xt"
proof -
  let ?x = "xt\<lparr>xt_simulated_at := Some (clock C), xt_vote_sent := True, xt_local_vote := Some v,
               xt_locked_chains := insert (chain_id C) (xt_locked_chains xt)\<rparr>"
  have "xt_inv xt \<Longrightarrow> xt_inv ?x" by (simp add: xt_inv_def)
  then show ?thesis
    using maybe_inv[of ?x C] maybe_decision_None[of C ?x]
    by (auto simp: xt_step_ok_def cast_vote_def Let_def)
qed

lemma send_vote_section_eq:
  "send_vote_section C i v s =
    (case hm_get (pending s) i of
      None \<Rightarrow> (None, s)
    | Some xt \<Rightarrow>
        if xt_local_vote xt \<noteq> None then (None, s)
        else (fst (send_vote_section C i v s), update_xt i (cast_vote C v) s))"
  by (auto simp: send_vote_section_def update_xt_def cast_vote_def Let_def split: option.splits prod.splits)

lemma send_vote_section_Some:
  assumes "hm_get (pending s) i = Some xt" "xt_local_vote xt = None"
  shows "\<exists>cmd s'. send_vote_section C i v s = (Some (xt_instance_id xt, cmd), s')"
proof -
  let ?x = "xt\<lparr>xt_simulated_at := Some (clock C), xt_vote_sent := True, xt_local_vote := Some v,
               xt_locked_chains := insert (chain_id C) (xt_locked_chains xt)\<rparr>"
  obtain made x where m: "(if \<not> is_publisher_connected C then maybe_make_standalone_decision C ?x else (None, ?x)) = (made, x)"
    by force
  then have "xt_instance_id x = xt_instance_id xt"
    by (auto split: if_splits dest!: arg_cong[where f = "\<lambda>p. xt_instance_id (snd p)"])
  then show ?thesis using assms m by (simp add: send_vote_section_def Let_def)
qed

lemma send_vote_section_pending:
  assumes "hm_get (pending s) i = Some xt" "xt_local_vote xt = None"
  shows "hm_get (pending (snd (send_vote_section C i v s))) i = Some (cast_vote C v xt)"
  using assms by (subst send_vote_section_eq) (simp add: update_xt_pending)

lemma send_vote_section_inv:
  assumes "coord_inv s"
  shows "coord_inv (snd (send_vote_section C i v s))"
proof -
  have "coord_inv (update_xt i (cast_vote C v) s)"
    using assms by (rule update_xt_inv) (rule cast_vote_ok)
  then show ?thesis using assms by (subst send_vote_section_eq) (auto split: option.split)
qed

section \<open>Unanimity\<close>

text \<open>Votes only of chains that take part, each recorded as it was cast.\<close>

definition votes_of :: "(u64 \<Rightarrow> bool) \<Rightarrow> coordinator \<Rightarrow> pending_xt \<Rightarrow> bool" where
  "votes_of vote C xt \<longleftrightarrow> hm_wf (xt_raw_txs xt) \<and> hm_contains (xt_raw_txs xt) (chain_id C) \<and>
     hm_wf (xt_peer_votes xt) \<and>
     (xt_local_vote xt = None \<or> xt_local_vote xt = Some (vote (chain_id C))) \<and>
     (\<forall>cid v. hm_get (xt_peer_votes xt) cid = Some v \<longrightarrow> hm_contains (xt_raw_txs xt) cid \<and> v = vote cid)"

lemma counted_card:
  assumes "hm_wf (xt_peer_votes xt)"
  shows "length (counted_peers C xt) = card (dom (hm_get (xt_peer_votes xt)) - {chain_id C})"
proof -
  have "distinct (map fst (counted_peers C xt))"
    using wf_retain[OF assms, of "\<lambda>cid _. cid \<noteq> chain_id C"]
    by (simp add: counted_peers_def hm_retain_def hm_wf_def)
  then have "length (counted_peers C xt) = card (set (map fst (counted_peers C xt)))"
    by (metis distinct_card length_map)
  also have "set (map fst (counted_peers C xt)) = dom (hm_get (xt_peer_votes xt)) - {chain_id C}"
    by (force simp: counted_peers_def dom_map_of_conv_image_fst)
  finally show ?thesis .
qed

lemma participants_card:
  assumes "hm_wf m" "hm_contains m k"
  shows "length m = Suc (card (dom (hm_get m) - {k}))"
proof -
  have "length m = card (dom (hm_get m))"
    using assms(1) by (metis dom_map_of_conv_image_fst distinct_card hm_wf_def length_map set_map)
  also have "\<dots> = Suc (card (dom (hm_get m) - {k}))"
    using assms(2) by (subst card_Suc_Diff1) (auto simp: hm_simps finite_dom_map_of)
  finally show ?thesis .
qed

lemma commit_unanimous:
  assumes "hm_wf (xt_raw_txs xt)" "hm_contains (xt_raw_txs xt) (chain_id C)" "hm_wf (xt_peer_votes xt)"
    and sub: "dom (hm_get (xt_peer_votes xt)) \<subseteq> dom (hm_get (xt_raw_txs xt))"
    and und: "xt_decision xt = None"
    and commit: "xt_decision (snd (maybe_make_standalone_decision C xt)) = Some True"
  shows "xt_local_vote xt = Some True"
    and "cid \<in> dom (hm_get (xt_raw_txs xt)) \<Longrightarrow> cid \<noteq> chain_id C \<Longrightarrow> hm_get (xt_peer_votes xt) cid = Some True"
proof -
  let ?P = "dom (hm_get (xt_raw_txs xt)) - {chain_id C}" and ?V = "dom (hm_get (xt_peer_votes xt)) - {chain_id C}"
  have na: "\<not> abort_vote C xt" and le: "length (xt_raw_txs xt) \<le> fst (tally C xt)"
    using commit maybe_decision[OF und assms(3), of C] by (auto split: if_splits)
  have len: "length (xt_raw_txs xt) = Suc (card ?P)" using participants_card[OF assms(1,2)] .
  have VP: "card ?V \<le> card ?P" using sub by (intro card_mono) (auto simp: finite_dom_map_of)
  have t: "fst (tally C xt) = (case xt_local_vote xt of None \<Rightarrow> 0 | Some _ \<Rightarrow> 1) + card ?V"
    by (simp add: tally_counts counted_card[OF assms(3)])
  obtain l where l: "xt_local_vote xt = Some l" using le len t VP by (cases "xt_local_vote xt") auto
  then show "xt_local_vote xt = Some True" using na by (cases l) (auto simp: abort_vote_def)
  have "card ?P \<le> card ?V" using le len t l by simp
  then have "?V = ?P" using sub by (intro card_seteq) (auto simp: finite_dom_map_of)
  then show "hm_get (xt_peer_votes xt) cid = Some True"
    if "cid \<in> dom (hm_get (xt_raw_txs xt))" "cid \<noteq> chain_id C"
  proof -
    have "cid \<in> ?V" using that \<open>?V = ?P\<close> by simp
    then obtain v where "hm_get (xt_peer_votes xt) cid = Some v" by auto
    then show ?thesis using na that(2) by (cases v) (auto simp: abort_vote_def)
  qed
qed

lemma votes_of_dom: "votes_of vote C xt \<Longrightarrow> dom (hm_get (xt_peer_votes xt)) \<subseteq> dom (hm_get (xt_raw_txs xt))"
  by (auto simp: votes_of_def hm_simps)

lemma commit_all_true:
  assumes "votes_of vote C xt" "xt_decision xt = None"
    and "xt_decision (snd (maybe_make_standalone_decision C xt)) = Some True"
    and "hm_contains (xt_raw_txs xt) cid"
  shows "vote cid"
proof -
  note u = commit_unanimous[OF _ _ _ votes_of_dom[OF assms(1)] assms(2,3)]
  have "xt_local_vote xt = Some True"
    and "cid \<noteq> chain_id C \<Longrightarrow> hm_get (xt_peer_votes xt) cid = Some True"
    using u assms(1,4) by (auto simp: votes_of_def hm_simps)
  then show ?thesis using assms(1) by (cases "cid = chain_id C") (auto simp: votes_of_def)
qed

lemma abort_some_false:
  assumes "votes_of vote C xt" "xt_decision xt = None"
    and "xt_decision (snd (maybe_make_standalone_decision C xt)) = Some False"
  obtains cid where "hm_contains (xt_raw_txs xt) cid" "\<not> vote cid"
proof -
  have "abort_vote C xt"
    using assms maybe_decision[of xt C] by (auto simp: votes_of_def split: if_splits)
  then show ?thesis using that assms(1) by (auto simp: abort_vote_def votes_of_def)
qed

section \<open>Decisions are final\<close>

lemma on_decision_section_final:
  "hm_get (pending s) j = Some xt \<Longrightarrow> xt_decision xt = Some d0 \<Longrightarrow>
    hm_get (pending (snd (on_decision_section C i d s))) j = Some xt"
  by (auto simp: on_decision_section_def Let_def hm_simps split: option.splits)

lemma peer_vote_section_final:
  "hm_get (pending s) j = Some xt \<Longrightarrow> xt_decision xt = Some d0 \<Longrightarrow>
    hm_get (pending (snd (peer_vote_section C i cid v s))) j = Some xt"
  by (auto simp: peer_vote_section_def Let_def hm_simps split: option.splits prod.splits)

lemma cast_vote_final: "xt_decision xt = Some d0 \<Longrightarrow> xt_decision (cast_vote C v xt) = Some d0"
  by (simp add: cast_vote_def Let_def maybe_keeps)

lemma send_vote_section_final:
  "hm_get (pending s) j = Some xt \<Longrightarrow> xt_decision xt = Some d0 \<Longrightarrow>
    \<exists>xt'. hm_get (pending (snd (send_vote_section C i v s))) j = Some xt' \<and> xt_decision xt' = Some d0"
  by (subst send_vote_section_eq) (auto simp: update_xt_pending cast_vote_final split: option.splits)

lemma on_decision_state: "sys_state (snd (on_decision C i d w)) = snd (on_decision_section C i d (sys_state w))"
  by (simp add: on_decision_def split: prod.split sum.split)

lemma handle_peer_vote_state:
  "sys_state (snd (handle_peer_vote C i cid v w)) = snd (peer_vote_section C i cid v (sys_state w))"
  by (simp add: handle_peer_vote_def split: prod.split sum.split)

lemma send_vote_state: "sys_state (snd (send_vote C i v w)) = snd (send_vote_section C i v (sys_state w))"
proof -
  obtain r s where sec: "send_vote_section C i v (sys_state w) = (r, s)" by force
  show ?thesis
  proof (cases r)
    case (Some p)
    obtain b cmd where p: "p = (b, cmd)" by force
    obtain res w' where a: "apply_builder_command_opt C cmd (w\<lparr>sys_state := s\<rparr>) = (res, w')" by force
    then have "sys_state w' = s" using apply_builder_command_opt_state(1)[of C cmd "w\<lparr>sys_state := s\<rparr>"] by simp
    then show ?thesis using sec Some p a by (simp add: send_vote_def split: sum.split)
  qed (simp add: send_vote_def sec)
qed

fun builder_effect :: "effect \<Rightarrow> bool" where
  "builder_effect (EBuilderRelease _ _) = True"
| "builder_effect (EBuilderAbort _) = True"
| "builder_effect _ = False"

lemma apply_builder_command_log:
  "\<exists>es. sys_log (snd (apply_builder_command C cmd w)) = sys_log w @ es \<and>
    list_all builder_effect es"
proof (cases cmd)
  case (Release i deps)
  obtain r w' where b: "build_put_inbox_transactions C i deps w = (r, w')" by force
  then have "sys_log w' = sys_log w" using build_put_inbox_state(2)[of C i deps w] by simp
  then show ?thesis using Release b by (auto simp: Let_def split: option.split sum.split)
next
  case (Abort i)
  then show ?thesis by (auto simp: Let_def split: option.split sum.split)
qed

lemma apply_builder_command_opt_log:
  "\<exists>es. sys_log (snd (apply_builder_command_opt C cmd w)) = sys_log w @ es \<and>
    list_all builder_effect es"
  using apply_builder_command_log[of C _ w] by (auto simp: apply_builder_command_opt_def split: option.split)

section \<open>Properties\<close>

text \<open>Atomic commitment in standalone mode.  When only participating chains have voted, and every
  sidecar records the votes as they were cast, two sidecars that decide the same XT decide the same
  way.\<close>

lemma standalone_agreement:
  assumes "votes_of vote C1 xt1" "votes_of vote C2 xt2"
    and "dom (hm_get (xt_raw_txs xt1)) = dom (hm_get (xt_raw_txs xt2))"
    and "xt_decision xt1 = None" "xt_decision xt2 = None"
    and "xt_decision (snd (maybe_make_standalone_decision C1 xt1)) = Some d1"
    and "xt_decision (snd (maybe_make_standalone_decision C2 xt2)) = Some d2"
  shows "d1 = d2"
proof (rule ccontr)
  have dom: "hm_contains (xt_raw_txs xt1) cid \<longleftrightarrow> hm_contains (xt_raw_txs xt2) cid" for cid
    using assms(3) by (auto simp: hm_simps dom_def)
  assume "d1 \<noteq> d2"
  then consider "d1 = False" "d2 = True" | "d1 = True" "d2 = False" by (cases d1; cases d2) auto
  then show False
  proof cases
    case 1
    obtain cid where "hm_contains (xt_raw_txs xt1) cid" "\<not> vote cid"
      using abort_some_false[OF assms(1,4)] assms(6) 1 by metis
    then show False using commit_all_true[OF assms(2,5)] assms(7) 1 dom by blast
  next
    case 2
    obtain cid where "hm_contains (xt_raw_txs xt2) cid" "\<not> vote cid"
      using abort_some_false[OF assms(2,5)] assms(7) 2 by metis
    then show False using commit_all_true[OF assms(1,4)] assms(6) 2 dom by blast
  qed
qed

definition demo_xt :: pending_xt where
  "demo_xt = (pending_xt_new 0 ''xt-1-1'' [9])\<lparr>xt_raw_txs := [(1, [[1]]), (2, [[2]])]\<rparr>"

lemma standalone_agreement_example:
  "xt_decision (snd (maybe_make_standalone_decision demo_coordinator
      (demo_xt\<lparr>xt_local_vote := Some True, xt_peer_votes := [(2, True)]\<rparr>))) =
   xt_decision (snd (maybe_make_standalone_decision (demo_coordinator\<lparr>chain_id := 2\<rparr>)
      (demo_xt\<lparr>xt_local_vote := Some True, xt_peer_votes := [(1, True)]\<rparr>)))"
proof -
  let ?x1 = "demo_xt\<lparr>xt_local_vote := Some True, xt_peer_votes := [(2, True)]\<rparr>"
  let ?x2 = "demo_xt\<lparr>xt_local_vote := Some True, xt_peer_votes := [(1, True)]\<rparr>"
  let ?C2 = "demo_coordinator\<lparr>chain_id := 2\<rparr>"
  have v: "votes_of (\<lambda>_. True) demo_coordinator ?x1" "votes_of (\<lambda>_. True) ?C2 ?x2"
    by (auto simp: votes_of_def demo_xt_def demo_coordinator_def hm_simps)
  have u: "xt_decision ?x1 = None" "xt_decision ?x2 = None" by (simp_all add: demo_xt_def pending_xt_new_def)
  have d: "xt_decision (snd (maybe_make_standalone_decision demo_coordinator ?x1)) = Some True"
    "xt_decision (snd (maybe_make_standalone_decision ?C2 ?x2)) = Some True"
    by code_simp+
  show ?thesis using standalone_agreement[OF v _ u d] d by simp
qed

text \<open>A standalone commit is unanimous: when the recorded peer votes come from participating chains,
  the decision is commit only if this chain and every other participating chain voted to commit, and
  a single abort vote decides abort at once.\<close>

lemma standalone_commit_unanimous:
  assumes "hm_wf (xt_raw_txs xt)" "hm_contains (xt_raw_txs xt) (chain_id C)" "hm_wf (xt_peer_votes xt)"
    and "dom (hm_get (xt_peer_votes xt)) \<subseteq> dom (hm_get (xt_raw_txs xt))" "xt_decision xt = None"
  shows "(xt_decision (snd (maybe_make_standalone_decision C xt)) = Some True \<longleftrightarrow>
      xt_local_vote xt = Some True \<and>
      (\<forall>cid. hm_contains (xt_raw_txs xt) cid \<and> cid \<noteq> chain_id C \<longrightarrow> hm_get (xt_peer_votes xt) cid = Some True)) \<and>
    (xt_decision (snd (maybe_make_standalone_decision C xt)) = Some False \<longleftrightarrow> abort_vote C xt)"
proof -
  let ?d = "xt_decision (snd (maybe_make_standalone_decision C xt))"
  let ?all = "xt_local_vote xt = Some True \<and>
      (\<forall>cid. hm_contains (xt_raw_txs xt) cid \<and> cid \<noteq> chain_id C \<longrightarrow> hm_get (xt_peer_votes xt) cid = Some True)"
  note d = maybe_decision[OF assms(5,3), of C]
  have "?d = Some True" if a: ?all
  proof -
    have peer: "hm_get (xt_peer_votes xt) cid = Some True"
      if "cid \<in> dom (hm_get (xt_raw_txs xt))" "cid \<noteq> chain_id C" for cid
      using a that unfolding hm_contains_iff by blast
    then have dom: "dom (hm_get (xt_peer_votes xt)) - {chain_id C} = dom (hm_get (xt_raw_txs xt)) - {chain_id C}"
      using assms(4) by blast
    have "\<not> abort_vote C xt"
    proof
      assume "abort_vote C xt"
      then obtain cid where "cid \<noteq> chain_id C" "hm_get (xt_peer_votes xt) cid = Some False"
        using a by (auto simp: abort_vote_def)
      then show False using peer[of cid] assms(4) by auto
    qed
    then show ?thesis
      using d a dom participants_card[OF assms(1,2)] by (simp add: tally_counts counted_card[OF assms(3)])
  qed
  moreover have "?all" if "?d = Some True"
    using commit_unanimous[OF assms that] unfolding hm_contains_iff by blast
  ultimately have "?d = Some True \<longleftrightarrow> ?all" by blast
  moreover have "?d = Some False \<longleftrightarrow> abort_vote C xt" unfolding d by simp
  ultimately show ?thesis by blast
qed

lemma standalone_commit_unanimous_example:
  "xt_decision (snd (maybe_make_standalone_decision demo_coordinator
      (demo_xt\<lparr>xt_local_vote := Some True, xt_peer_votes := [(2, True)]\<rparr>))) = Some True"
proof -
  let ?x = "demo_xt\<lparr>xt_local_vote := Some True, xt_peer_votes := [(2, True)]\<rparr>"
  have h: "hm_wf (xt_raw_txs ?x)" "hm_contains (xt_raw_txs ?x) (chain_id demo_coordinator)"
    "hm_wf (xt_peer_votes ?x)" "dom (hm_get (xt_peer_votes ?x)) \<subseteq> dom (hm_get (xt_raw_txs ?x))"
    "xt_decision ?x = None"
    by (auto simp: demo_xt_def demo_coordinator_def hm_simps pending_xt_new_def)
  show ?thesis
    using standalone_commit_unanimous[OF h]
    by (auto simp: demo_xt_def demo_coordinator_def hm_simps split: if_splits)
qed


text \<open>C8: a decision is final for the voting handlers: once an XT is decided, no publisher decision, peer
  vote or local vote changes its decision.\<close>

theorem decision_final:
  assumes "hm_get (pending (sys_state w)) j = Some xt" "xt_decision xt = Some d0"
    and "w' \<in> {snd (on_decision C i d w), snd (handle_peer_vote C i cid v w), snd (send_vote C i v w)}"
  shows "\<exists>xt'. hm_get (pending (sys_state w')) j = Some xt' \<and> xt_decision xt' = Some d0"
  using assms on_decision_section_final[OF assms(1,2)] peer_vote_section_final[OF assms(1,2)]
    send_vote_section_final[OF assms(1,2)]
  by (auto simp: on_decision_state handle_peer_vote_state send_vote_state)

definition demo_sys :: "pending_xt \<Rightarrow> sys" where
  "demo_sys xt = sys_new\<lparr>sys_state := coordinator_state_new\<lparr>pending := [(xt_id xt, xt)],
     mailbox_index := [(xt_instance_id xt, xt_id xt)]\<rparr>\<rparr>"

theorem decision_final_witness:
  "\<exists>xt'. hm_get (pending (sys_state (snd (on_decision demo_coordinator ''xt-1-1'' True
      (demo_sys (record_decision 3 False demo_xt)))))) ''xt-1-1'' = Some xt' \<and> xt_decision xt' = Some False"
  by (rule decision_final[of "demo_sys (record_decision 3 False demo_xt)" "''xt-1-1''" "record_decision 3 False demo_xt"])
    (auto simp: demo_sys_def demo_xt_def pending_xt_new_def record_decision_def)

text \<open>C9: the local vote is cast once.  The first call for an undecided XT records the vote and, unless
  the builder command it triggers fails, emits exactly one vote, to the publisher when connected and
  to the peers otherwise; every later call changes nothing and emits nothing.\<close>

theorem local_vote_once:
  assumes "hm_get (pending (sys_state w)) i = Some xt"
  shows "case xt_local_vote xt of
      Some _ \<Rightarrow> send_vote C i v w = (Inr (), w)
    | None \<Rightarrow> \<exists>xt' es. hm_get (pending (sys_state (snd (send_vote C i v w)))) i = Some xt' \<and>
        xt_local_vote xt' = Some v \<and>
        list_all builder_effect es \<and>
        sys_log (snd (send_vote C i v w)) = sys_log w @ es @
          (if fst (send_vote C i v w) \<noteq> Inr () then []
           else if is_publisher_connected C then [EPublisherVote (xt_instance_id xt) v]
           else if has_peer_coordinator C then [EPeerVote i (chain_id C) v] else [])"
proof (cases "xt_local_vote xt")
  case (Some l)
  then show ?thesis using assms by (simp add: send_vote_def send_vote_section_def)
next
  case None
  have st: "hm_get (pending (sys_state (snd (send_vote C i v w)))) i = Some (cast_vote C v xt)"
    unfolding send_vote_state using send_vote_section_pending[OF assms None] .
  have lv: "xt_local_vote (cast_vote C v xt) = Some v" by (simp add: cast_vote_def Let_def)
  obtain cmd s where sec: "send_vote_section C i v (sys_state w) = (Some (xt_instance_id xt, cmd), s)"
    using send_vote_section_Some[OF assms None] by blast
  obtain r w1 where a: "apply_builder_command_opt C cmd (w\<lparr>sys_state := s\<rparr>) = (r, w1)" by force
  obtain es where es: "sys_log w1 = sys_log w @ es"
    "list_all builder_effect es"
    using apply_builder_command_opt_log[of C cmd "w\<lparr>sys_state := s\<rparr>"] a by auto
  show ?thesis
    using None st lv es sec a by (cases r) (auto simp: send_vote_def intro!: exI[of _ es])
qed

theorem local_vote_once_witness:
  "sys_log (snd (send_vote demo_coordinator ''xt-1-1'' True (demo_sys demo_xt))) = [EPeerVote ''xt-1-1'' 1 True]"
proof -
  have "hm_get (pending (sys_state (demo_sys demo_xt))) ''xt-1-1'' = Some demo_xt" by code_simp
  note v = local_vote_once[OF this, of demo_coordinator True]
  obtain r where r: "send_vote demo_coordinator ''xt-1-1'' True (demo_sys demo_xt) = r" by blast
  have "xt_local_vote demo_xt = None" "sys_log (demo_sys demo_xt) = []" "has_peer_coordinator demo_coordinator"
    "\<not> is_publisher_connected demo_coordinator" "chain_id demo_coordinator = 1" by code_simp+
  moreover have "fst r = Inr ()" "length (sys_log (snd r)) = 1" unfolding r[symmetric] by code_simp+
  ultimately show ?thesis using v unfolding r by auto
qed

text \<open>C37: a builder failure loses the vote.  When the builder command triggered by the local vote fails,
  the call returns the error with the vote already recorded and nothing sent to publisher or peers,
  and calling again sends nothing either.\<close>

theorem builder_failure_loses_vote:
  assumes "send_vote C i v w = (Inl err, w')"
  shows "(\<exists>xt'. hm_get (pending (sys_state w')) i = Some xt' \<and> xt_local_vote xt' = Some v) \<and>
    list_all builder_effect (drop (length (sys_log w)) (sys_log w')) \<and>
    send_vote C i v w' = (Inr (), w')"
proof -
  have "hm_get (pending (sys_state w)) i \<noteq> None"
    using assms by (intro notI) (simp add: send_vote_def send_vote_section_def)
  then obtain xt where xt1: "hm_get (pending (sys_state w)) i = Some xt" by blast
  moreover have "xt_local_vote xt = None"
    using assms xt1 by (intro ccontr[of "xt_local_vote xt = None"]) (simp add: send_vote_def send_vote_section_def)
  ultimately have xt: "hm_get (pending (sys_state w)) i = Some xt" "xt_local_vote xt = None" by auto
  have st: "hm_get (pending (sys_state w')) i = Some (cast_vote C v xt)"
    using send_vote_section_pending[OF xt, of C v] send_vote_state[of C i v w] assms by simp
  have lv: "xt_local_vote (cast_vote C v xt) = Some v" by (simp add: cast_vote_def Let_def)
  obtain cmd s where sec: "send_vote_section C i v (sys_state w) = (Some (xt_instance_id xt, cmd), s)"
    using send_vote_section_Some[OF xt] by blast
  have "apply_builder_command_opt C cmd (w\<lparr>sys_state := s\<rparr>) = (Inl err, w')"
    using assms sec by (auto simp: send_vote_def split: prod.splits sum.splits if_splits)
  then have "\<exists>es. sys_log w' = sys_log w @ es \<and>
      list_all builder_effect es"
    using apply_builder_command_opt_log[of C cmd "w\<lparr>sys_state := s\<rparr>"] by auto
  moreover have "send_vote C i v w' = (Inr (), w')"
    using st lv by (simp add: send_vote_def send_vote_section_def)
  ultimately show ?thesis using st lv by auto
qed

theorem builder_failure_loses_vote_witness:
  "let C = demo_coordinator\<lparr>builder_client := Some refusing_builder\<rparr>;
       w' = snd (send_vote C ''xt-1-1'' False (demo_sys demo_xt))
   in sys_log w' = [EBuilderAbort ''xt-1-1''] \<and> send_vote C ''xt-1-1'' False w' = (Inr (), w')"
proof -
  let ?C = "demo_coordinator\<lparr>builder_client := Some refusing_builder\<rparr>"
  let ?r = "send_vote ?C ''xt-1-1'' False (demo_sys demo_xt)"
  have e: "?r = (Inl (BuilderControl ''refused''), snd ?r)" by code_simp
  have "sys_log (snd ?r) = [EBuilderAbort ''xt-1-1'']" by code_simp
  then show ?thesis using builder_failure_loses_vote[OF e] by (simp add: Let_def)
qed

end
