(* ===== verification/Registration.thy ===== *)
theory Registration
  imports Voting
begin

text \<open>
  How XTs and mailbox messages enter the coordinator: \<open>handlers/mailbox.rs\<close>,
  \<open>handlers/forwarded_xt.rs\<close>, \<open>handlers/start_instance.rs\<close>, and the submission paths
  \<open>submit_xt\<close>, \<open>submit_xt_publisher\<close>, \<open>submit_xt_standalone\<close>,
  \<open>resolve_pending_submission\<close> of \<open>coordinator/src/coordinator.rs\<close>.

  A spawned task is an effect; its body is modelled in \<open>Simulation_Pipeline\<close>.  The
  wait for the publisher's answer in \<open>submit_xt_publisher\<close> is an argument, the outcome
  of the one-shot channel.
\<close>

section \<open>Waiting submissions\<close>

definition notify_pending_submission_waiters ::
  "waiter list \<Rightarrow> (string, instance_id) result \<Rightarrow> sys \<Rightarrow> sys" where
  "notify_pending_submission_waiters waiters res w = fold (\<lambda>wt. emit (EResolve wt res)) waiters w"

definition resolve_pending_submission ::
  "string \<Rightarrow> (string, instance_id) result \<Rightarrow> sys \<Rightarrow> sys" where
  "resolve_pending_submission fp res w =
    (let waiters = hm_get (pending_submissions (sys_state w)) fp;
         w = w\<lparr>sys_state := (sys_state w)\<lparr>pending_submissions :=
           hm_remove fp (pending_submissions (sys_state w))\<rparr>\<rparr>
     in case waiters of
          None \<Rightarrow> w
        | Some ws \<Rightarrow> notify_pending_submission_waiters ws res w)"

section \<open>Mailbox messages\<close>

definition mailbox_section :: "mailbox_message \<Rightarrow> coordinator_state \<Rightarrow> coordinator_state" where
  "mailbox_section msg s =
    (case hm_get (mailbox_index s) (msg_instance_id msg) of
      Some i \<Rightarrow> update_xt i (\<lambda>xt. xt\<lparr>xt_pending_mailbox := xt_pending_mailbox xt @ [msg]\<rparr>) s
    | None \<Rightarrow> buffer_orphan_mailbox msg s)"

definition handle_mailbox_message ::
  "coordinator \<Rightarrow> mailbox_message \<Rightarrow> sys \<Rightarrow> (coordinator_error, unit) result \<times> sys" where
  "handle_mailbox_message C msg w =
    (let (res, q) = (if has_mailbox_queue C then queue_record msg (sys_queue w) else (Inr (), sys_queue w));
         w = w\<lparr>sys_queue := q\<rparr>
     in case res of
          Inl e \<Rightarrow> (Inl (Mailbox (show_mailbox_error e)), w)
        | Inr _ \<Rightarrow> (Inr (), emit ENotifyMailbox (w\<lparr>sys_state := mailbox_section msg (sys_state w)\<rparr>)))"

section \<open>Registering an XT\<close>

text \<open>Index and file a new XT; then attach the messages that came before it.\<close>

definition register_xt :: "bytes \<Rightarrow> pending_xt \<Rightarrow> coordinator_state \<Rightarrow> coordinator_state" where
  "register_xt raw xt s =
    s\<lparr>mailbox_index := hm_insert raw (xt_id xt) (mailbox_index s),
      pending := hm_insert (xt_id xt) xt (pending s)\<rparr>"

definition attach_buffered :: "bytes \<Rightarrow> instance_id \<Rightarrow> coordinator_state \<Rightarrow> coordinator_state" where
  "attach_buffered raw i s =
    (let (buffered, s) = drain_mailbox_buffer raw s in
     if buffered = [] then s
     else update_xt i (\<lambda>xt. xt\<lparr>xt_pending_mailbox := xt_pending_mailbox xt @ buffered\<rparr>) s)"

subsection \<open>Forwarded by a peer\<close>

text \<open>
  \<open>Inr None\<close> is an XT that is already pending; otherwise whether the local chain
  takes part, and the builder submission.
\<close>

definition forwarded_xt_section ::
  "coordinator \<Rightarrow> instance_id \<Rightarrow> raw_txs \<Rightarrow> u64 \<Rightarrow> u64 \<Rightarrow> coordinator_state
    \<Rightarrow> (coordinator_error, (bool \<times> xt_builder_submission option) option) result \<times> coordinator_state" where
  "forwarded_xt_section C i clean_txs origin_chain origin_sq s =
    (if hm_contains (pending s) i then (Inr None, s)
     else if undecided_count s \<ge> max_pending_xts then (Inl (TooManyPendingInstances max_pending_xts), s)
     else
       let has_local = hm_contains clean_txs (chain_id C);
           xt = (pending_xt_new (clock C) i (as_bytes i))
             \<lparr>xt_sender_nonces := build_sender_nonce_cache (decode_sender_nonce C) clean_txs,
              xt_raw_txs := clean_txs, xt_origin_chain := Some origin_chain, xt_origin_seq := origin_sq\<rparr>;
           xt = (if has_local then xt\<lparr>xt_locked_chains := insert (chain_id C) (xt_locked_chains xt)\<rparr> else xt);
           raw_key = as_bytes i;
           s = attach_buffered raw_key i (register_xt raw_key xt s);
           local_submission = Option.bind (hm_get (pending s) i) (local_builder_submission C)
       in (Inr (Some (has_local, local_submission)), s))"

definition handle_forwarded_xt ::
  "coordinator \<Rightarrow> instance_id \<Rightarrow> raw_txs \<Rightarrow> u64 \<Rightarrow> u64 \<Rightarrow> sys \<Rightarrow> (coordinator_error, unit) result \<times> sys" where
  "handle_forwarded_xt C i txs origin_chain origin_sq w =
    (if i = [] then (Inl (Other ''missing instance_id for forwarded XT''), w)
     else
       let clean_txs = hm_retain (\<lambda>_ chain_txs. chain_txs \<noteq> []) txs in
       if clean_txs = [] then (Inl NoTransactions, w)
       else
         case forwarded_xt_section C i clean_txs origin_chain origin_sq (sys_state w) of
           (Inl err, s) \<Rightarrow> (Inl err, w\<lparr>sys_state := s\<rparr>)
         | (Inr None, s) \<Rightarrow> (Inr (), w\<lparr>sys_state := s\<rparr>)
         | (Inr (Some (has_local, local_submission)), s) \<Rightarrow>
             (let (submitted, w) = (case local_submission of
                   None \<Rightarrow> (Inr (), w\<lparr>sys_state := s\<rparr>)
                 | Some submission \<Rightarrow> submit_xt_to_builder C submission (w\<lparr>sys_state := s\<rparr>))
              in case submitted of
                   Inl err \<Rightarrow> (Inl err, snd (remove_pending_xt C i w))
                 | Inr _ \<Rightarrow> (Inr (), if has_local then emit (ESpawnProcess i) w else w)))"

subsection \<open>Started by the publisher\<close>

definition reject_start_instance :: "coordinator \<Rightarrow> start_instance_msg \<Rightarrow> sys \<Rightarrow> sys" where
  "reject_start_instance C msg w =
    (case publisher C of
      None \<Rightarrow> w
    | Some p \<Rightarrow> if publisher_is_connected p then emit (EPublisherVote (si_instance_id msg) False) w else w)"

definition group_raw_txs :: "xt_request \<Rightarrow> raw_txs" where
  "group_raw_txs reqs =
    fold (\<lambda>req m. fold (\<lambda>tx m. hm_insert (tr_chain_id req)
        ((case hm_get m (tr_chain_id req) of None \<Rightarrow> [] | Some txs \<Rightarrow> txs) @ [tx]) m)
      (tr_transactions req) m) reqs []"

datatype start_instance_outcome =
    SiAlreadyPending
  | SiTooMany
  | SiRejected coordinator_error
  | SiRegistered "xt_builder_submission option"

definition start_instance_section ::
  "coordinator \<Rightarrow> spec_instance \<Rightarrow> raw_txs \<Rightarrow> bool \<Rightarrow> coordinator_state
    \<Rightarrow> start_instance_outcome \<times> coordinator_state" where
  "start_instance_section C inst raw includes_local s =
    (let i = from_publisher_bytes (ext C) (inst_id inst) in
     if hm_contains (pending s) i then (SiAlreadyPending, s)
     else if undecided_count s \<ge> max_pending_xts then (SiTooMany, s)
     else
       case accept_start_instance (inst_period_id inst) (inst_sequence_number inst) (publisher_period s) of
         (Inl err, pp) \<Rightarrow> (SiRejected err, s\<lparr>publisher_period := pp\<rparr>)
       | (Inr _, pp) \<Rightarrow>
           (let s = s\<lparr>publisher_period := pp\<rparr>;
                xt = (pending_xt_new (clock C) i (inst_id inst))
                  \<lparr>xt_period_id := inst_period_id inst, xt_sequence_num := inst_sequence_number inst,
                   xt_raw_txs := raw,
                   xt_sender_nonces := build_sender_nonce_cache (decode_sender_nonce C) raw\<rparr>;
                xt = (if includes_local then xt\<lparr>xt_locked_chains := insert (chain_id C) (xt_locked_chains xt)\<rparr> else xt);
                s = attach_buffered (inst_id inst) i (register_xt (inst_id inst) xt s)
            in (SiRegistered (Option.bind (hm_get (pending s) i) (local_builder_submission C)), s)))"

definition handle_start_instance ::
  "coordinator \<Rightarrow> start_instance_msg \<Rightarrow> sys \<Rightarrow> (coordinator_error, unit) result \<times> sys" where
  "handle_start_instance C msg w =
    (case si_xt_request msg of
      None \<Rightarrow> (Inl (Other ''missing xt_request''), w)
    | Some xt_req \<Rightarrow>
        let fp = xt_request_fingerprint (ext C) (encode_xt_request C) xt_req in
        case spec_instance_try_from C msg of
          Inl err \<Rightarrow>
            (let w = resolve_pending_submission fp (Inl (''invalid start-instance: '' @ err)) w
             in (Inr (), reject_start_instance C msg w))
        | Inr inst \<Rightarrow>
            let i = from_publisher_bytes (ext C) (inst_id inst);
                participant_chains = chains_from_request C (inst_xt_request inst);
                raw = group_raw_txs (inst_xt_request inst);
                includes_local = (List.member participant_chains (chain_id C) \<and>
                  (case hm_get raw (chain_id C) of None \<Rightarrow> False | Some txs \<Rightarrow> txs \<noteq> []));
                (outcome, s) = start_instance_section C inst raw includes_local (sys_state w);
                w = w\<lparr>sys_state := s\<rparr>
            in case outcome of
                 SiAlreadyPending \<Rightarrow> (Inl (InstanceAlreadyPending i), w)
               | SiTooMany \<Rightarrow>
                   (Inl (TooManyPendingInstances max_pending_xts),
                    resolve_pending_submission fp
                      (Inl (show_coordinator_error (ext C) (TooManyPendingInstances max_pending_xts))) w)
               | SiRejected err \<Rightarrow>
                   (let w = resolve_pending_submission fp (Inl (show_coordinator_error (ext C) err)) w
                    in (Inr (), reject_start_instance C msg w))
               | SiRegistered local_submission \<Rightarrow>
                   (let (submitted, w) = (case local_submission of
                         None \<Rightarrow> (Inr (), w)
                       | Some submission \<Rightarrow> submit_xt_to_builder C submission w)
                    in case submitted of
                         Inl err \<Rightarrow>
                           (let w = snd (remove_pending_xt C i w);
                                w = resolve_pending_submission fp (Inl (show_coordinator_error (ext C) err)) w
                            in (Inl err, reject_start_instance C msg w))
                       | Inr _ \<Rightarrow>
                           (let w = resolve_pending_submission fp (Inr i) w
                            in (Inr (), if includes_local then emit (ESpawnProcess i) w else w))))"

subsection \<open>Submitted locally\<close>

datatype submission_outcome = TimedOut | Dropped | Resolved "(string, instance_id) result"

definition enqueue_waiter :: "string \<Rightarrow> waiter \<Rightarrow> coordinator_state \<Rightarrow> bool \<times> coordinator_state" where
  "enqueue_waiter fp wt s =
    (let waiters = (case hm_get (pending_submissions s) fp of None \<Rightarrow> [] | Some ws \<Rightarrow> ws)
     in (waiters = [], s\<lparr>pending_submissions := hm_insert fp (waiters @ [wt]) (pending_submissions s)\<rparr>))"

definition submit_xt_publisher ::
  "coordinator \<Rightarrow> waiter \<Rightarrow> submission_outcome \<Rightarrow> raw_txs \<Rightarrow> sys \<Rightarrow> (coordinator_error, string) result \<times> sys" where
  "submit_xt_publisher C wt outcome txs w =
    (case publisher C of
      None \<Rightarrow> (Inl PublisherNotConnected, w)
    | Some p \<Rightarrow>
        let req = build_xt_request txs;
            fp = xt_request_fingerprint (ext C) (encode_xt_request C) req;
            (should_send, s) = enqueue_waiter fp wt (sys_state w);
            w = w\<lparr>sys_state := s\<rparr>;
            data = encode_wire_message C req;
            w = (if should_send then emit (EPublisherRaw data) w else w)
        in case (if should_send then publisher_send_raw p data else Inr ()) of
             Inl e \<Rightarrow>
               (let message = ''failed to send XT to publisher: '' @ e
                in (Inl (Other message), resolve_pending_submission fp (Inl message) w))
           | Inr _ \<Rightarrow>
               (case outcome of
                 TimedOut \<Rightarrow> (Inl (Other ''timed out waiting for publisher to assign instance_id''), w)
               | Dropped \<Rightarrow> (Inl (Other ''publisher submission resolution dropped unexpectedly''), w)
               | Resolved (Inl e) \<Rightarrow> (Inl (Other e), w)
               | Resolved (Inr i) \<Rightarrow> (Inr i, w)))"

definition submit_standalone_section ::
  "coordinator \<Rightarrow> raw_txs \<Rightarrow> coordinator_state
    \<Rightarrow> (coordinator_error, instance_id + (instance_id \<times> xt_builder_submission option)) result \<times> coordinator_state" where
  "submit_standalone_section C txs s =
    (let fp = xt_request_fingerprint (ext C) (encode_xt_request C) (build_xt_request txs);
         existing = hm_get (submitted_fingerprints s) fp
     in case Option.bind existing (\<lambda>i. if hm_contains (pending s) i then Some i else None) of
       Some i \<Rightarrow> (Inr (Inl i), s)
     | None \<Rightarrow>
         let s = (if existing \<noteq> None
                  then s\<lparr>submitted_fingerprints := hm_remove fp (submitted_fingerprints s)\<rparr> else s)
         in if undecided_count s \<ge> max_pending_xts then (Inl (TooManyPendingInstances max_pending_xts), s)
            else
              let s = s\<lparr>origin_seq := origin_seq s + 1\<rparr>;
                  sq = origin_seq s;
                  i = standalone (ext C) (chain_id C) sq;
                  xt = (pending_xt_new (clock C) i (as_bytes i))
                    \<lparr>xt_origin_chain := Some (chain_id C), xt_origin_seq := sq,
                     xt_sender_nonces := build_sender_nonce_cache (decode_sender_nonce C) txs,
                     xt_raw_txs := txs, xt_locked_chains := {chain_id C}\<rparr>;
                  s = register_xt (as_bytes i) xt s;
                  s = s\<lparr>submitted_fingerprints := hm_insert fp i (submitted_fingerprints s)\<rparr>
              in (Inr (Inr (i, Option.bind (hm_get (pending s) i) (local_builder_submission C))), s))"

definition submit_xt_standalone ::
  "coordinator \<Rightarrow> raw_txs \<Rightarrow> sys \<Rightarrow> (coordinator_error, string) result \<times> sys" where
  "submit_xt_standalone C txs w =
    (case submit_standalone_section C txs (sys_state w) of
      (Inl err, s) \<Rightarrow> (Inl err, w\<lparr>sys_state := s\<rparr>)
    | (Inr (Inl i), s) \<Rightarrow> (Inr i, w\<lparr>sys_state := s\<rparr>)
    | (Inr (Inr (i, local_submission)), s) \<Rightarrow>
        (let (submitted, w) = (case local_submission of
              None \<Rightarrow> (Inr (), w\<lparr>sys_state := s\<rparr>)
            | Some submission \<Rightarrow> submit_xt_to_builder C submission (w\<lparr>sys_state := s\<rparr>))
         in case submitted of
              Inl err \<Rightarrow> (Inl err, snd (remove_pending_xt C i w))
            | Inr _ \<Rightarrow>
                (let w = emit (ESpawnProcess i) w
                 in (Inr i, if has_peer_coordinator C
                            then emit (EForwardXt i txs (chain_id C) (origin_seq (sys_state w))) w else w))))"

definition submit_xt ::
  "coordinator \<Rightarrow> waiter \<Rightarrow> submission_outcome \<Rightarrow> raw_txs \<Rightarrow> sys \<Rightarrow> (coordinator_error, string) result \<times> sys" where
  "submit_xt C wt outcome txs w =
    (if txs = [] then (Inl NoTransactions, w)
     else if length txs < 2 then (Inl (Other ''cross-chain transaction must span at least 2 chains''), w)
     else if is_publisher_connected C then submit_xt_publisher C wt outcome txs w
     else submit_xt_standalone C txs w)"

section \<open>The sections keep the invariant\<close>

lemma pending_submissions_inv [simp]: "coord_inv (s\<lparr>pending_submissions := c\<rparr>) = coord_inv s"
  by (simp add: inv_defs undecided_count_def)

lemma publisher_period_inv [simp]: "coord_inv (s\<lparr>publisher_period := c\<rparr>) = coord_inv s"
  by (simp add: inv_defs undecided_count_def)

lemma origin_seq_inv [simp]: "coord_inv (s\<lparr>origin_seq := c\<rparr>) = coord_inv s"
  by (simp add: inv_defs undecided_count_def)

lemma push_mailbox_ok: "xt_step_ok (\<lambda>xt. xt\<lparr>xt_pending_mailbox := f xt\<rparr>) xt"
  by (simp add: xt_step_ok_def xt_inv_def)

lemma mailbox_section_inv: "coord_inv s \<Longrightarrow> coord_inv (mailbox_section msg s)"
  by (auto simp: mailbox_section_def intro: update_xt_inv push_mailbox_ok buffer_orphan_inv split: option.split)

lemma register_inv:
  assumes "coord_inv s" "undecided_count s < max_pending_xts" "xt_inv xt" "xt_instance_id xt = raw"
    and "take 3 (xt_id xt) = ''xt-'' \<Longrightarrow> raw = as_bytes (xt_id xt)"
    and "\<And>old. hm_get (pending s) (xt_id xt) = Some old \<Longrightarrow> xt_instance_id old = raw"
  shows "coord_inv (register_xt raw xt s)"
proof -
  let ?t = "register_xt raw xt s" and ?i = "xt_id xt"
  have p: "pending ?t = hm_insert ?i xt (pending s)"
    and ix: "mailbox_index ?t = hm_insert raw ?i (mailbox_index s)"
    and fp: "submitted_fingerprints ?t = submitted_fingerprints s"
    and bf: "mailbox_buffer ?t = mailbox_buffer s"
    by (simp_all add: register_xt_def)
  have "undecided_count ?t \<le> max_pending_xts"
  proof (cases "hm_get (pending s) ?i")
    case None
    then show ?thesis
      using assms(2) undecided_fresh_count[of "pending s" ?i "\<lambda>xt. xt_decision xt = None" xt]
      by (simp add: undecided_count_def p)
  next
    case (Some old)
    then show ?thesis
      using assms(2) undecided_filter_count[OF coord_inv_wf[OF assms(1)] Some, of "\<lambda>xt. xt_decision xt = None" xt]
      by (simp add: undecided_count_def p split: if_splits)
  qed
  moreover have "pending_inv ?t"
    using coord_inv_parts(1)[OF assms(1)] assms(3,4,5) unfolding pending_inv_def p by (auto simp: hm_simps)
  moreover have "index_inv ?t"
    unfolding index_inv_def p ix
  proof (intro allI impI)
    fix r j
    assume j: "hm_get (hm_insert raw ?i (mailbox_index s)) r = Some j"
    show "\<exists>x. hm_get (hm_insert ?i xt (pending s)) j = Some x \<and> xt_instance_id x = r"
    proof (cases "r = raw")
      case True
      then show ?thesis using j assms(4) by (simp add: hm_simps)
    next
      case False
      then have "hm_get (mailbox_index s) r = Some j" using j by (simp add: hm_simps)
      then obtain x where x: "hm_get (pending s) j = Some x" "xt_instance_id x = r"
        using coord_inv_index[OF assms(1)] by blast
      then show ?thesis using assms(4,6) False by (cases "j = ?i") (auto simp: hm_simps)
    qed
  qed
  moreover have "fingerprint_inv ?t"
    using coord_inv_parts(3)[OF assms(1)] unfolding fingerprint_inv_def p fp by (auto simp: hm_simps)
  moreover have "buffer_inv ?t" using coord_inv_parts(4)[OF assms(1)] unfolding buffer_inv_def bf by simp
  ultimately show ?thesis by (simp add: coord_inv_def)
qed

lemma attach_buffered_inv: "coord_inv s \<Longrightarrow> coord_inv (attach_buffered raw i s)"
  using drain_inv[of s raw]
  by (auto simp: attach_buffered_def Let_def intro: update_xt_inv push_mailbox_ok split: prod.splits
      dest!: arg_cong[of _ _ snd])

lemma xt_inv_register [simp]:
  "xt_inv (xt\<lparr>xt_raw_txs := a\<rparr>) = xt_inv xt" "xt_inv (xt\<lparr>xt_sender_nonces := b\<rparr>) = xt_inv xt"
  "xt_inv (xt\<lparr>xt_origin_chain := c\<rparr>) = xt_inv xt" "xt_inv (xt\<lparr>xt_origin_seq := d\<rparr>) = xt_inv xt"
  "xt_inv (xt\<lparr>xt_locked_chains := e\<rparr>) = xt_inv xt" "xt_inv (xt\<lparr>xt_period_id := f\<rparr>) = xt_inv xt"
  "xt_inv (xt\<lparr>xt_sequence_num := g\<rparr>) = xt_inv xt"
  by (simp_all add: xt_inv_def)

lemma new_xt_fields [simp]:
  "xt_id (pending_xt_new now i raw) = i" "xt_instance_id (pending_xt_new now i raw) = raw"
  "xt_decision (pending_xt_new now i raw) = None" "xt_pending_mailbox (pending_xt_new now i raw) = []"
  by (simp_all add: pending_xt_new_def)

lemma forwarded_xt_section_inv:
  assumes "coord_inv s"
  shows "coord_inv (snd (forwarded_xt_section C i txs oc osq s))"
  using assms
  by (auto simp: forwarded_xt_section_def Let_def hm_simps intro!: attach_buffered_inv register_inv)

lemma hex_not_standalone_form: "hex_spec X \<Longrightarrow> take 3 (hex_encode X b) \<noteq> ''xt-''"
proof
  assume h: "hex_spec X" and t: "take 3 (hex_encode X b) = ''xt-''"
  have "CHR ''x'' \<in> set (take 3 (hex_encode X b))" unfolding t by simp
  then have "CHR ''x'' \<in> set (hex_encode X b)" by (rule in_set_takeD)
  then show False using h by (force simp: hex_spec_def hex_digits_def)
qed

lemma start_instance_section_inv:
  assumes "coord_inv s" "hex_spec (ext C)"
  shows "coord_inv (snd (start_instance_section C inst raw loc s))"
  using assms hex_not_standalone_form[OF assms(2), of "inst_id inst"]
  by (auto simp: start_instance_section_def Let_def hm_simps from_publisher_bytes_def undecided_count_def
      split: prod.split sum.split intro!: attach_buffered_inv register_inv)

lemma standalone_form: "take 3 (standalone X c n) = ''xt-''"
  by (simp add: standalone_def)

lemma remove_fingerprint_inv:
  "coord_inv s \<Longrightarrow> coord_inv (s\<lparr>submitted_fingerprints := hm_remove fp (submitted_fingerprints s)\<rparr>)"
  by (auto simp: inv_defs undecided_count_def hm_simps split: if_splits)

lemma insert_fingerprint_inv:
  "coord_inv s \<Longrightarrow> hm_contains (pending s) i \<Longrightarrow>
    coord_inv (s\<lparr>submitted_fingerprints := hm_insert fp i (submitted_fingerprints s)\<rparr>)"
  by (auto simp: inv_defs undecided_count_def hm_simps split: if_splits)

lemma submit_standalone_section_inv:
  assumes "coord_inv s"
  shows "coord_inv (snd (submit_standalone_section C txs s))"
proof -
  let ?fp = "xt_request_fingerprint (ext C) (encode_xt_request C) (build_xt_request txs)"
  obtain s1 where s1: "s1 = (if hm_get (submitted_fingerprints s) ?fp \<noteq> None
      then s\<lparr>submitted_fingerprints := hm_remove ?fp (submitted_fingerprints s)\<rparr> else s)" by blast
  then have inv1: "coord_inv s1" using assms remove_fingerprint_inv by auto
  let ?s2 = "s1\<lparr>origin_seq := origin_seq s1 + 1\<rparr>"
  let ?i = "standalone (ext C) (chain_id C) (origin_seq s1 + 1)"
  let ?xt = "(pending_xt_new (clock C) ?i (as_bytes ?i))
      \<lparr>xt_origin_chain := Some (chain_id C), xt_origin_seq := origin_seq s1 + 1,
       xt_sender_nonces := build_sender_nonce_cache (decode_sender_nonce C) txs,
       xt_raw_txs := txs, xt_locked_chains := {chain_id C}\<rparr>"
  have reg: "coord_inv (register_xt (as_bytes ?i) ?xt ?s2)" if "undecided_count s1 < max_pending_xts"
  proof (rule register_inv)
    show "xt_instance_id old = as_bytes ?i" if "hm_get (pending ?s2) (xt_id ?xt) = Some old" for old
      using that coord_inv_parts(1)[OF inv1] standalone_form[of "ext C" "chain_id C" "origin_seq s1 + 1"]
      by (simp add: pending_inv_def)
  qed (use that inv1 in \<open>simp_all add: undecided_count_def\<close>)
  have "hm_contains (pending (register_xt (as_bytes ?i) ?xt ?s2)) ?i"
    by (simp add: register_xt_def hm_simps)
  then have "coord_inv ((register_xt (as_bytes ?i) ?xt ?s2)\<lparr>submitted_fingerprints :=
      hm_insert ?fp ?i (submitted_fingerprints (register_xt (as_bytes ?i) ?xt ?s2))\<rparr>)"
    if "undecided_count s1 < max_pending_xts"
    using reg[OF that] insert_fingerprint_inv by blast
  then show ?thesis
    using inv1 assms unfolding submit_standalone_section_def Let_def s1[symmetric]
    by (simp add: not_le split: option.split)
qed

section \<open>Delivery of early messages\<close>

lemma attach_buffered_fields:
  "mailbox_index (attach_buffered raw i s) = mailbox_index s"
  "hm_get (mailbox_buffer (attach_buffered raw i s)) raw = None"
  "hm_get (pending (attach_buffered raw i s)) j =
    (if j = i then map_option (\<lambda>xt. xt\<lparr>xt_pending_mailbox := xt_pending_mailbox xt @
        (case hm_get (mailbox_buffer s) raw of None \<Rightarrow> [] | Some b \<Rightarrow> b)\<rparr>) (hm_get (pending s) i)
     else hm_get (pending s) j)"
  by (simp_all add: attach_buffered_def drain_mailbox_buffer_def Let_def hm_simps update_xt_pending
      option.map_ident split: option.split)

lemma forwarded_registers:
  assumes "forwarded_xt_section C i txs oc osq s = (Inr (Some r), s')"
  shows "\<exists>xt. hm_get (pending s') i = Some xt \<and> xt_pending_mailbox xt =
      (case hm_get (mailbox_buffer s) (as_bytes i) of None \<Rightarrow> [] | Some b \<Rightarrow> b)"
    and "hm_get (mailbox_index s') (as_bytes i) = Some i"
    and "hm_get (mailbox_buffer s') (as_bytes i) = None"
proof -
  obtain xt where s': "s' = attach_buffered (as_bytes i) i (register_xt (as_bytes i) xt s)"
    and xt: "xt_id xt = i" "xt_pending_mailbox xt = []"
    using assms by (auto simp: forwarded_xt_section_def Let_def split: if_splits)
  then show "\<exists>xt. hm_get (pending s') i = Some xt \<and> xt_pending_mailbox xt =
      (case hm_get (mailbox_buffer s) (as_bytes i) of None \<Rightarrow> [] | Some b \<Rightarrow> b)"
    "hm_get (mailbox_index s') (as_bytes i) = Some i" "hm_get (mailbox_buffer s') (as_bytes i) = None"
    by (auto simp: attach_buffered_fields register_xt_def hm_simps split: option.split)
qed

lemma mailbox_fold_indexed:
  assumes "hm_get (mailbox_index s) raw = Some i" "hm_get (pending s) i = Some xt"
    and "\<forall>m \<in> set ms. msg_instance_id m = raw"
  shows "\<exists>xt'. hm_get (pending (fold mailbox_section ms s)) i = Some xt' \<and>
    xt_pending_mailbox xt' = xt_pending_mailbox xt @ ms"
  using assms
proof (induction ms arbitrary: s xt)
  case (Cons m ms)
  let ?f = "\<lambda>xt. xt\<lparr>xt_pending_mailbox := xt_pending_mailbox xt @ [m]\<rparr>"
  have "mailbox_section m s = update_xt i ?f s" using Cons.prems by (simp add: mailbox_section_def)
  then have "hm_get (mailbox_index (mailbox_section m s)) raw = Some i"
    "hm_get (pending (mailbox_section m s)) i = Some (?f xt)"
    using Cons.prems by (simp_all add: update_xt_pending)
  then show ?case using Cons.IH Cons.prems(3) by fastforce
qed simp

lemma mailbox_buffer_pos: "0 < mailbox_buffer_max_per_key"
  by (simp add: mailbox_buffer_max_per_key_def)

lemma mailbox_fold_orphan:
  assumes "hm_get (mailbox_index s) raw = None" "\<forall>m \<in> set ms. msg_instance_id m = raw"
    and "hm_get (mailbox_buffer s) raw = Some b \<or> b = [] \<and> length (mailbox_buffer s) < mailbox_buffer_max_keys \<and>
      hm_get (mailbox_buffer s) raw = None"
    and "length b + length ms \<le> mailbox_buffer_max_per_key"
  shows "(case hm_get (mailbox_buffer (fold mailbox_section ms s)) raw of None \<Rightarrow> [] | Some b \<Rightarrow> b) = b @ ms \<and>
    pending (fold mailbox_section ms s) = pending s \<and> mailbox_index (fold mailbox_section ms s) = mailbox_index s"
  using assms
proof (induction ms arbitrary: s b)
  case Nil
  then show ?case by auto
next
  case (Cons m ms)
  have sec: "mailbox_section m s = buffer_orphan_mailbox m s" using Cons.prems by (simp add: mailbox_section_def)
  have buf: "hm_get (mailbox_buffer (buffer_orphan_mailbox m s)) raw = Some (b @ [m])"
  proof -
    have m: "msg_instance_id m = raw" "\<not> mailbox_buffer_max_per_key \<le> length b"
      using Cons.prems(2,4) by simp_all
    from Cons.prems(3) show ?thesis
      by (elim disjE conjE) (simp_all add: buffer_orphan_mailbox_def Let_def hm_simps m mailbox_buffer_pos)
  qed
  have "hm_get (mailbox_index (buffer_orphan_mailbox m s)) raw = None"
    "\<forall>m \<in> set ms. msg_instance_id m = raw" "length (b @ [m]) + length ms \<le> mailbox_buffer_max_per_key"
    using Cons.prems by simp_all
  note ih = Cons.IH[OF this(1,2) disjI1[OF buf] this(3)]
  show ?case using ih by (simp add: sec)
qed

section \<open>Undoing a failed registration\<close>

lemma remove_pending_lookup:
  "hm_get (pending (snd (remove_pending_xt_from_state C i s))) j =
    (if j = i then None else hm_get (pending s) j)"
  by (auto simp: remove_pending_xt_from_state_def hm_simps split: option.split)

lemma remove_index_lookup:
  "hm_get (pending s) i = Some xt \<Longrightarrow>
    hm_get (mailbox_index (snd (remove_pending_xt_from_state C i s))) raw =
      (if raw = xt_instance_id xt then None else hm_get (mailbox_index s) raw)"
  by (simp add: remove_pending_xt_from_state_def hm_simps)

section \<open>Properties\<close>




lemma coord_inv_demo: "coord_inv (sys_state sys_new)"
  by (simp add: sys_new_def coord_inv_new)




end
