(* ===== verification/Lifecycle.thy ===== *)
theory Lifecycle
  imports Registration
begin

text \<open>
  Period changes, rollbacks and housekeeping: \<open>handlers/start_period.rs\<close>,
  \<open>handlers/rollback.rs\<close>, and \<open>cleanup\<close> and \<open>get_xt_status\<close> of
  \<open>coordinator/src/coordinator.rs\<close>.
\<close>

section \<open>Rollback\<close>

definition abort_id :: "coordinator \<Rightarrow> pending_xt \<Rightarrow> instance_id option" where
  "abort_id C xt = (case local_builder_command C xt False of Some (Abort i) \<Rightarrow> Some i | _ \<Rightarrow> None)"

definition rollback_section ::
  "coordinator \<Rightarrow> coordinator_state \<Rightarrow> instance_id list \<times> (string, waiter list) hmap \<times> coordinator_state" where
  "rollback_section C s =
    (List.map_filter (abort_id C) (hm_values (pending s)),
     pending_submissions s,
     s\<lparr>pending := hm_map (\<lambda>_ xt. if xt_decision xt \<noteq> Some False then record_decision (clock C) False xt else xt)
         (pending s),
       publisher_period := period_close (publisher_period s),
       last_known_blocks := [], chain_overlay := [], mailbox_buffer := [], pending_submissions := []\<rparr>)"

text \<open>The loop over the builder aborts, left at the first error.\<close>

fun abort_all :: "coordinator \<Rightarrow> instance_id list \<Rightarrow> sys \<Rightarrow> (coordinator_error, unit) result \<times> sys" where
  "abort_all C [] w = (Inr (), w)"
| "abort_all C (i # ids) w =
    (case apply_builder_command C (Abort i) w of
      (Inl err, w) \<Rightarrow> (Inl err, w)
    | (Inr _, w) \<Rightarrow> abort_all C ids w)"

definition handle_rollback :: "coordinator \<Rightarrow> sys \<Rightarrow> (coordinator_error, unit) result \<times> sys" where
  "handle_rollback C w =
    (let (builder_abort_ids, subs, s) = rollback_section C (sys_state w)
     in case abort_all C builder_abort_ids (w\<lparr>sys_state := s\<rparr>) of
          (Inl err, w) \<Rightarrow> (Inl err, w)
        | (Inr _, w) \<Rightarrow>
            (let w = w\<lparr>sys_nonces := nonce_reset (sys_nonces w)\<rparr>
             in (Inr (), fold (\<lambda>ws. notify_pending_submission_waiters ws
                   (Inl ''publisher submission aborted by rollback'')) (hm_values subs) w)))"

section \<open>Start of a period\<close>

definition stale :: "u64 \<Rightarrow> pending_xt \<Rightarrow> bool" where
  "stale period_id xt \<longleftrightarrow>
     \<not> (xt_period_id xt = 0 \<or> xt_period_id xt \<ge> period_id \<or> xt_confirmed_at xt \<noteq> None) \<and>
     xt_decision xt \<noteq> Some True"

definition start_period_section ::
  "coordinator \<Rightarrow> u64 \<Rightarrow> coordinator_state \<Rightarrow> bytes list \<times> instance_id list \<times> coordinator_state" where
  "start_period_section C period_id s =
    (let visited = filter (stale period_id) (hm_values (pending s)) in
     (map xt_instance_id (filter (\<lambda>xt. xt_decision xt = None) visited),
      List.map_filter (abort_id C) visited,
      s\<lparr>pending := hm_map (\<lambda>_ xt. if stale period_id xt \<and> xt_decision xt = None
            then record_decision (clock C) False xt else xt) (pending s),
        publisher_period := period_start period_id (publisher_period s),
        last_known_blocks := [], chain_overlay := []\<rparr>))"

definition handle_start_period ::
  "coordinator \<Rightarrow> u64 \<Rightarrow> sys \<Rightarrow> (coordinator_error, unit) result \<times> sys" where
  "handle_start_period C period_id w =
    (let (aborted_ids, builder_abort_ids, s) = start_period_section C period_id (sys_state w)
     in case abort_all C builder_abort_ids (w\<lparr>sys_state := s\<rparr>) of
          (Inl err, w) \<Rightarrow> (Inl err, w)
        | (Inr _, w) \<Rightarrow>
            (Inr (), if is_publisher_connected C
                     then fold (\<lambda>raw. emit (EPublisherVote raw False)) aborted_ids w else w))"

section \<open>Cleanup and status\<close>

definition expired :: "nat \<Rightarrow> nat \<Rightarrow> pending_xt \<Rightarrow> bool" where
  "expired now max_age xt \<longleftrightarrow>
     (case (case xt_confirmed_at xt of Some t \<Rightarrow> Some t | None \<Rightarrow> xt_decided_at xt) of
       None \<Rightarrow> False
     | Some t \<Rightarrow> \<not> now - t \<le> max_age)"

definition cleanup :: "coordinator \<Rightarrow> nat \<Rightarrow> coordinator_state \<Rightarrow> coordinator_state" where
  "cleanup C max_age s =
    (let removed_raw_ids = map xt_instance_id (filter (expired (clock C) max_age) (hm_values (pending s)));
         s = s\<lparr>pending := hm_retain (\<lambda>_ xt. \<not> expired (clock C) max_age xt) (pending s)\<rparr>;
         s = s\<lparr>mailbox_index := fold hm_remove removed_raw_ids (mailbox_index s)\<rparr>;
         stale_fps = map fst (filter (\<lambda>(_, i). \<not> hm_contains (pending s) i) (submitted_fingerprints s));
         s = s\<lparr>submitted_fingerprints := fold hm_remove stale_fps (submitted_fingerprints s)\<rparr>;
         s = s\<lparr>pending_submissions := retain_open (sender_closed C) (pending_submissions s)\<rparr>;
         orphan_keys = filter (\<lambda>k. \<not> hm_contains (mailbox_index s) k) (hm_keys (mailbox_buffer s))
     in s\<lparr>mailbox_buffer := fold hm_remove orphan_keys (mailbox_buffer s)\<rparr>)"

text \<open>
  The housekeeping task: at each tick of the interval it reads the clock and cleans up, with
  an age of 300 seconds.  The ticks that have passed are listed with the clock at the tick and what
  the other tasks have done to the state since the tick before.
\<close>

fun cleanup_loop ::
  "coordinator \<Rightarrow> (nat \<times> (coordinator_state \<Rightarrow> coordinator_state)) list \<Rightarrow> coordinator_state \<Rightarrow> coordinator_state" where
  "cleanup_loop C [] s = s"
| "cleanup_loop C ((now, others) # ticks) s = cleanup_loop C ticks (cleanup (C\<lparr>clock := now\<rparr>) 300 (others s))"

definition get_xt_status ::
  "instance_id \<Rightarrow> coordinator_state \<Rightarrow> (coordinator_error, xt_status_response) result" where
  "get_xt_status i s =
    (case hm_get (pending s) i of
      None \<Rightarrow> Inl (InstanceNotFound i)
    | Some xt \<Rightarrow> Inr \<lparr>resp_instance_id = i, resp_status = determine_xt_status xt, resp_decision = xt_decision xt\<rparr>)"

section \<open>The sections keep the invariant\<close>

lemma map_xt_inv:
  assumes inv: "coord_inv s" and ok: "\<And>xt. xt_step_ok f xt"
    and t: "pending t = hm_map (\<lambda>_. f) (pending s)" "mailbox_index t = mailbox_index s"
      "submitted_fingerprints t = submitted_fingerprints s" "mailbox_buffer t = mailbox_buffer s \<or> mailbox_buffer t = []"
  shows "coord_inv t"
proof -
  have "length (filter (\<lambda>xt. xt_decision xt = None) (hm_values (hm_map (\<lambda>_. f) m)))
      \<le> length (filter (\<lambda>xt. xt_decision xt = None) (hm_values m))" for m :: "(instance_id, pending_xt) hmap"
    using ok by (induction m) (auto simp: hm_map_def xt_step_ok_def)
  then have "undecided_count t \<le> max_pending_xts"
    using coord_inv_parts(5)[OF inv] order_trans by (auto simp: undecided_count_def t(1))
  moreover have "pending_inv t"
    using coord_inv_parts(1)[OF inv] ok by (auto simp: pending_inv_def t(1) hm_simps xt_step_ok_def)
  moreover have "index_inv t"
    using coord_inv_parts(2)[OF inv] ok by (fastforce simp: index_inv_def t(1,2) hm_simps xt_step_ok_def)
  moreover have "fingerprint_inv t"
    using coord_inv_parts(3)[OF inv] by (auto simp: fingerprint_inv_def t(1,3) hm_simps)
  moreover have "buffer_inv t"
    using coord_inv_parts(4)[OF inv] t(4) by (auto simp: buffer_inv_def)
  ultimately show ?thesis by (simp add: coord_inv_def)
qed

lemma rollback_section_inv: "coord_inv s \<Longrightarrow> coord_inv (snd (snd (rollback_section C s)))"
  by (rule map_xt_inv[where s = s
      and f = "\<lambda>xt. if xt_decision xt \<noteq> Some False then record_decision (clock C) False xt else xt"])
    (simp_all add: rollback_section_def xt_step_ok_def)

lemma start_period_section_inv: "coord_inv s \<Longrightarrow> coord_inv (snd (snd (start_period_section C p s)))"
  by (rule map_xt_inv[where s = s
      and f = "\<lambda>xt. if stale p xt \<and> xt_decision xt = None then record_decision (clock C) False xt else xt"])
    (simp_all add: start_period_section_def xt_step_ok_def Let_def)

lemma fold_remove_lookup:
  "map_of (fold hm_remove ks m) k = (if k \<in> set ks then None else map_of m k)"
  by (induction ks arbitrary: m) (auto simp: hm_simps)

lemma fold_remove_wf: "hm_wf m \<Longrightarrow> hm_wf (fold hm_remove ks m)"
  by (induction ks arbitrary: m) auto

lemma fold_remove_length: "length (fold hm_remove ks m) \<le> length m"
proof (induction ks arbitrary: m)
  case (Cons k ks)
  then show ?case using order_trans[OF Cons[of "hm_remove k m"] length_remove] by simp
qed simp

lemma cleanup_fields:
  "pending (cleanup C a s) = hm_retain (\<lambda>_ xt. \<not> expired (clock C) a xt) (pending s)"
  "mailbox_index (cleanup C a s) =
    fold hm_remove (map xt_instance_id (filter (expired (clock C) a) (hm_values (pending s)))) (mailbox_index s)"
  "submitted_fingerprints (cleanup C a s) = fold hm_remove (map fst (filter
      (\<lambda>(_, i). \<not> hm_contains (pending (cleanup C a s)) i) (submitted_fingerprints s))) (submitted_fingerprints s)"
  "mailbox_buffer (cleanup C a s) =
    fold hm_remove (filter (\<lambda>k. \<not> hm_contains (mailbox_index (cleanup C a s)) k) (hm_keys (mailbox_buffer s)))
      (mailbox_buffer s)"
  by (simp_all add: cleanup_def Let_def)

lemma cleanup_inv:
  assumes "coord_inv s"
  shows "coord_inv (cleanup C a s)"
proof -
  let ?t = "cleanup C a s"
  note wf = coord_inv_wf[OF assms]
  have p: "hm_get (pending ?t) i =
      (case hm_get (pending s) i of None \<Rightarrow> None | Some xt \<Rightarrow> if expired (clock C) a xt then None else Some xt)" for i
    by (simp add: cleanup_fields(1) map_of_retain[OF wf] split: option.split)
  have "undecided_count ?t \<le> undecided_count s"
    unfolding undecided_count_def cleanup_fields(1) hm_retain_def by (rule undecided_filter_le)
  moreover have "pending_inv ?t"
    using coord_inv_parts(1)[OF assms] wf unfolding pending_inv_def p
    by (auto simp: cleanup_fields(1) split: option.splits if_splits)
  moreover have "index_inv ?t"
    unfolding index_inv_def
  proof (intro allI impI)
    fix raw i
    assume "hm_get (mailbox_index ?t) raw = Some i"
    then have kept: "raw \<notin> xt_instance_id ` {xt \<in> snd ` set (pending s). expired (clock C) a xt}"
      and "hm_get (mailbox_index s) raw = Some i"
      by (auto simp: cleanup_fields(2) fold_remove_lookup split: if_splits)
    then obtain xt where xt: "hm_get (pending s) i = Some xt" "xt_instance_id xt = raw"
      using coord_inv_index[OF assms] by blast
    then have "xt \<in> snd ` set (pending s)" by (force dest: map_of_SomeD)
    then have "\<not> expired (clock C) a xt" using kept xt(2) by blast
    then show "\<exists>xt. hm_get (pending ?t) i = Some xt \<and> xt_instance_id xt = raw" using xt by (simp add: p)
  qed
  moreover have "fingerprint_inv ?t"
  proof -
    have fwf: "hm_wf (submitted_fingerprints s)" using coord_inv_parts(3)[OF assms] by (simp add: fingerprint_inv_def)
    have "hm_contains (pending ?t) i" if "hm_get (submitted_fingerprints ?t) fp = Some i" for fp i
    proof (rule ccontr)
      assume n: "\<not> hm_contains (pending ?t) i"
      have "hm_get (submitted_fingerprints s) fp = Some i"
        using that unfolding cleanup_fields(3) fold_remove_lookup by (auto split: if_splits)
      then have "(fp, i) \<in> set (submitted_fingerprints s)" by (rule map_of_SomeD)
      then have "fp \<in> set (map fst (filter (\<lambda>(_, i). \<not> hm_contains (pending ?t) i) (submitted_fingerprints s)))"
        using n by force
      then show False using that unfolding cleanup_fields(3) fold_remove_lookup by simp
    qed
    moreover have "hm_wf (submitted_fingerprints ?t)"
      unfolding cleanup_fields(3) by (rule fold_remove_wf[OF fwf])
    ultimately show ?thesis by (simp add: fingerprint_inv_def)
  qed
  moreover have "buffer_inv ?t"
    using coord_inv_parts(4)[OF assms] fold_remove_length[of _ "mailbox_buffer s"] order_trans
    unfolding buffer_inv_def cleanup_fields(4)
    by (auto simp: fold_remove_wf fold_remove_lookup split: if_splits intro: order_trans)
  ultimately show ?thesis using coord_inv_parts(5)[OF assms] by (simp add: coord_inv_def)
qed

section \<open>The abort loop\<close>

lemma abort_all_state [simp]: "sys_state (snd (abort_all C ids w)) = sys_state w"
proof (induction ids arbitrary: w)
  case (Cons i ids)
  obtain r w1 where a: "apply_builder_command C (Abort i) w = (r, w1)" by force
  then have "sys_state w1 = sys_state w" using apply_builder_command_state(1)[of C "Abort i" w] by simp
  then show ?case using Cons a by (simp del: apply_builder_command.simps split: sum.split)
qed simp

lemma abort_all_inv: "nm_inv (sys_nonces w) \<Longrightarrow> nm_inv (sys_nonces (snd (abort_all C ids w)))"
proof (induction ids arbitrary: w)
  case (Cons i ids)
  obtain r w1 where a: "apply_builder_command C (Abort i) w = (r, w1)" by force
  then have "nm_inv (sys_nonces w1)" using apply_builder_command_inv[OF Cons.prems, of C "Abort i"] by simp
  then show ?case using Cons.IH a by (simp del: apply_builder_command.simps split: sum.split)
qed simp

lemma abort_all_log:
  "\<exists>n. sys_log (snd (abort_all C ids w)) = sys_log w @ map EBuilderAbort (take n ids) \<and>
    (fst (abort_all C ids w) = Inr () \<and> builder_client C \<noteq> None \<longrightarrow> n \<ge> length ids)"
proof (induction ids arbitrary: w)
  case (Cons i ids)
  obtain r w1 where a: "apply_builder_command C (Abort i) w = (r, w1)" by force
  show ?case
  proof (cases "builder_client C")
    case None
    then have "r = Inr ()" "sys_log w1 = sys_log w" using a by auto
    moreover obtain n where "sys_log (snd (abort_all C ids w1)) = sys_log w1 @ map EBuilderAbort (take n ids)"
      using Cons.IH by blast
    moreover have "sys_log (snd (abort_all C ids w')) = sys_log w'" for w'
      using None by (induction ids arbitrary: w') simp_all
    ultimately show ?thesis using a None by (intro exI[of _ 0]) simp
  next
    case (Some b)
    then have log: "sys_log w1 = sys_log w @ [EBuilderAbort i]" using a by (auto simp: Let_def split: sum.splits)
    obtain n where n: "sys_log (snd (abort_all C ids w1)) = sys_log w1 @ map EBuilderAbort (take n ids)"
      "fst (abort_all C ids w1) = Inr () \<and> builder_client C \<noteq> None \<longrightarrow> n \<ge> length ids"
      using Cons.IH by blast
    show ?thesis
    proof (cases r)
      case (Inl e)
      then show ?thesis using a log by (intro exI[of _ 1]) (simp del: apply_builder_command.simps)
    next
      case (Inr u)
      then show ?thesis
        using a log n Some by (intro exI[of _ "Suc n"]) (simp del: apply_builder_command.simps)
    qed
  qed
qed simp

lemma abort_floor: "canonical_floor (sys_nonces (snd (apply_builder_command C (Abort i) w))) = canonical_floor (sys_nonces w)"
  by (simp add: Let_def floor_aborted split: option.split sum.split)

lemma abort_all_floor: "canonical_floor (sys_nonces (snd (abort_all C ids w))) = canonical_floor (sys_nonces w)"
proof (induction ids arbitrary: w)
  case (Cons i ids)
  obtain r w1 where a: "apply_builder_command C (Abort i) w = (r, w1)" by force
  then have "canonical_floor (sys_nonces w1) = canonical_floor (sys_nonces w)"
    using abort_floor[of C i w] by (simp del: apply_builder_command.simps)
  then show ?case using Cons a by (simp del: apply_builder_command.simps split: sum.split)
qed simp

lemma notify_log:
  "notify_pending_submission_waiters ws r w = w\<lparr>sys_log := sys_log w @ map (\<lambda>x. EResolve x r) ws\<rparr>"
  unfolding notify_pending_submission_waiters_def
  by (induction ws arbitrary: w) (simp_all add: emit_def)

lemma notify_all_log:
  "fold (\<lambda>ws. notify_pending_submission_waiters ws r) wss w =
    w\<lparr>sys_log := sys_log w @ map (\<lambda>x. EResolve x r) (concat wss)\<rparr>"
  by (induction wss arbitrary: w) (simp_all add: notify_log)

lemma handle_rollback_cases:
  assumes "handle_rollback C w = (r, w')"
  obtains ids n where "ids = List.map_filter (abort_id C) (hm_values (pending (sys_state w)))"
    "sys_state w' = snd (snd (rollback_section C (sys_state w)))"
    "(\<exists>e. r = Inl e) \<and> canonical_floor (sys_nonces w') = canonical_floor (sys_nonces w) \<and>
        sys_log w' = sys_log w @ map EBuilderAbort (take n ids) \<or>
     r = Inr () \<and> sys_nonces w' = nonce_new \<and> (builder_client C \<noteq> None \<longrightarrow> n \<ge> length ids) \<and>
        sys_log w' = sys_log w @ map EBuilderAbort (take n ids) @
          map (\<lambda>x. EResolve x (Inl ''publisher submission aborted by rollback''))
            (concat (hm_values (pending_submissions (sys_state w))))"
proof -
  let ?ids = "List.map_filter (abort_id C) (hm_values (pending (sys_state w)))"
  let ?s = "snd (snd (rollback_section C (sys_state w)))"
  obtain q w1 where a: "abort_all C ?ids (w\<lparr>sys_state := ?s\<rparr>) = (q, w1)" by force
  have st: "sys_state w1 = ?s" and fl: "canonical_floor (sys_nonces w1) = canonical_floor (sys_nonces w)"
    using abort_all_state[of C ?ids "w\<lparr>sys_state := ?s\<rparr>"] abort_all_floor[of C ?ids "w\<lparr>sys_state := ?s\<rparr>"] a
    by simp_all
  obtain n where n: "sys_log w1 = sys_log w @ map EBuilderAbort (take n ?ids)"
    "q = Inr () \<and> builder_client C \<noteq> None \<longrightarrow> n \<ge> length ?ids"
    using abort_all_log[of C ?ids "w\<lparr>sys_state := ?s\<rparr>"] a by auto
  have sec: "rollback_section C (sys_state w) = (?ids, pending_submissions (sys_state w), ?s)"
    by (simp add: rollback_section_def)
  have eq: "handle_rollback C w =
    (case q of Inl err \<Rightarrow> (Inl err, w1)
     | Inr _ \<Rightarrow> (Inr (), fold (\<lambda>ws. notify_pending_submission_waiters ws
          (Inl ''publisher submission aborted by rollback'')) (hm_values (pending_submissions (sys_state w)))
          (w1\<lparr>sys_nonces := nonce_reset (sys_nonces w1)\<rparr>)))"
    unfolding handle_rollback_def by (subst sec) (simp add: a Let_def split: sum.split)
  show ?thesis
  proof (cases q)
    case (Inl e)
    then have "r = Inl e" "w' = w1" using assms eq by simp_all
    then show ?thesis using that[OF refl, of n] st n(1) fl by blast
  next
    case (Inr u)
    then have "r = Inr ()" "sys_nonces w' = nonce_new" "sys_state w' = ?s"
      "sys_log w' = sys_log w1 @ map (\<lambda>x. EResolve x (Inl ''publisher submission aborted by rollback''))
        (concat (hm_values (pending_submissions (sys_state w))))"
      using assms eq st by (auto simp: notify_all_log nonce_reset_def)
    then show ?thesis using that[OF refl, of n] n Inr by simp
  qed
qed

lemma rollback_section_fields [simp]:
  "publisher_period (snd (snd (rollback_section C s))) = period_default"
  "last_known_blocks (snd (snd (rollback_section C s))) = []"
  "chain_overlay (snd (snd (rollback_section C s))) = []"
  "mailbox_buffer (snd (snd (rollback_section C s))) = []"
  "pending_submissions (snd (snd (rollback_section C s))) = []"
  by (simp_all add: rollback_section_def period_close_def)

lemma rollback_section_decided:
  assumes "hm_get (pending (snd (snd (rollback_section C s)))) i = Some xt"
  shows "xt_decision xt = Some False"
proof -
  obtain x where "xt = (if xt_decision x \<noteq> Some False then record_decision (clock C) False x else x)"
    using assms by (auto simp: rollback_section_def hm_simps)
  then show ?thesis by (cases "xt_decision x = Some False") simp_all
qed

section \<open>Properties\<close>

text \<open>C25: a rollback that succeeds leaves nothing of the abandoned period.  Every pending XT is decided
  abort, the period is closed, overlays, buffered messages and waiting submissions are gone, the nonce
  lane is empty, and the effects are exactly one builder abort per XT with local transactions followed by
  one rollback error to every waiting submission.\<close>

theorem rollback_complete:
  assumes "handle_rollback C w = (Inr (), w')" "builder_client C \<noteq> None"
  shows "(\<forall>i. hm_contains (pending (sys_state w')) i \<longleftrightarrow> hm_contains (pending (sys_state w)) i) \<and>
    (\<forall>i xt. hm_get (pending (sys_state w')) i = Some xt \<longrightarrow> xt_decision xt = Some False) \<and>
    publisher_period (sys_state w') = period_default \<and> last_known_blocks (sys_state w') = [] \<and>
    chain_overlay (sys_state w') = [] \<and> mailbox_buffer (sys_state w') = [] \<and>
    pending_submissions (sys_state w') = [] \<and> sys_nonces w' = nonce_new \<and>
    sys_log w' = sys_log w
      @ map EBuilderAbort (List.map_filter (abort_id C) (hm_values (pending (sys_state w))))
      @ map (\<lambda>x. EResolve x (Inl ''publisher submission aborted by rollback''))
          (concat (hm_values (pending_submissions (sys_state w))))"
proof (rule handle_rollback_cases[OF assms(1)])
  fix ids n
  assume ids: "ids = List.map_filter (abort_id C) (hm_values (pending (sys_state w)))"
    and st: "sys_state w' = snd (snd (rollback_section C (sys_state w)))"
    and "(\<exists>e. (Inr () :: (coordinator_error, unit) result) = Inl e) \<and>
        canonical_floor (sys_nonces w') = canonical_floor (sys_nonces w) \<and>
        sys_log w' = sys_log w @ map EBuilderAbort (take n ids) \<or>
      (Inr () :: (coordinator_error, unit) result) = Inr () \<and> sys_nonces w' = nonce_new \<and>
        (builder_client C \<noteq> None \<longrightarrow> n \<ge> length ids) \<and>
        sys_log w' = sys_log w @ map EBuilderAbort (take n ids) @
          map (\<lambda>x. EResolve x (Inl ''publisher submission aborted by rollback''))
            (concat (hm_values (pending_submissions (sys_state w))))"
  then have "sys_nonces w' = nonce_new"
    and "sys_log w' = sys_log w @ map EBuilderAbort ids @
          map (\<lambda>x. EResolve x (Inl ''publisher submission aborted by rollback''))
            (concat (hm_values (pending_submissions (sys_state w))))"
    using assms(2) by simp_all
  moreover have "\<forall>i xt. hm_get (pending (sys_state w')) i = Some xt \<longrightarrow> xt_decision xt = Some False"
    unfolding st by (blast intro: rollback_section_decided)
  moreover have "hm_contains (pending (sys_state w')) i \<longleftrightarrow> hm_contains (pending (sys_state w)) i" for i
    by (auto simp: st rollback_section_def hm_simps)
  ultimately show ?thesis unfolding st ids by (intro conjI allI) (blast | simp)+
qed

definition rollback_demo :: "coordinator_state \<Rightarrow> sys" where
  "rollback_demo s = sys_new\<lparr>sys_state := s\<lparr>pending := [(''xt-1-1'', demo_xt)], pending_submissions := [(''fp'', [5])]\<rparr>,
     sys_nonces := snd (reserve ''xt-1-1'' 2 (Inr 7) nonce_new)\<rparr>"

theorem rollback_complete_witness:
  "sys_log (snd (handle_rollback demo_coordinator (rollback_demo coordinator_state_new))) =
    [EBuilderAbort ''xt-1-1'', EResolve 5 (Inl ''publisher submission aborted by rollback'')]"
proof -
  let ?w = "rollback_demo coordinator_state_new"
  have e: "handle_rollback demo_coordinator ?w = (Inr (), snd (handle_rollback demo_coordinator ?w))"
    by code_simp
  have "sys_log ?w = []" "List.map_filter (abort_id demo_coordinator) (hm_values (pending (sys_state ?w))) = [''xt-1-1'']"
    "concat (hm_values (pending_submissions (sys_state ?w))) = [5]"
    by code_simp+
  then show ?thesis using rollback_complete[OF e] by simp
qed

text \<open>C38: when the builder refuses an abort during a rollback, the rollback stops there: the XTs are
  already decided and the waiting submissions already taken out of the state, but no waiter gets the
  rollback error, and the nonce lane keeps the floor it had before the rollback.\<close>

theorem rollback_stops_at_builder_error:
  assumes "handle_rollback C w = (Inl err, w')"
  shows "canonical_floor (sys_nonces w') = canonical_floor (sys_nonces w) \<and>
    pending_submissions (sys_state w') = [] \<and>
    (\<forall>i xt. hm_get (pending (sys_state w')) i = Some xt \<longrightarrow> xt_decision xt = Some False) \<and>
    (\<exists>ids. sys_log w' = sys_log w @ map EBuilderAbort ids)"
proof (rule handle_rollback_cases[OF assms], intro conjI)
  assume st: "sys_state w' = snd (snd (rollback_section C (sys_state w)))"
  show "\<forall>i xt. hm_get (pending (sys_state w')) i = Some xt \<longrightarrow> xt_decision xt = Some False"
    unfolding st by (blast intro: rollback_section_decided)
qed auto

theorem rollback_stops_at_builder_error_witness:
  "canonical_floor (sys_nonces (snd (handle_rollback (demo_coordinator\<lparr>builder_client := Some refusing_builder\<rparr>)
      (rollback_demo coordinator_state_new)))) = 7"
proof -
  let ?C = "demo_coordinator\<lparr>builder_client := Some refusing_builder\<rparr>" and ?w = "rollback_demo coordinator_state_new"
  have e: "handle_rollback ?C ?w = (Inl (BuilderControl ''refused''), snd (handle_rollback ?C ?w))"
    by code_simp
  have "canonical_floor (sys_nonces ?w) = 7" by code_simp
  then show ?thesis using rollback_stops_at_builder_error[OF e] by simp
qed

text \<open>C26: the start of a period decides abort for exactly the undecided, unconfirmed XTs of earlier
  publisher periods and leaves every other XT as it was: standalone XTs, XTs of this or a later period,
  committed and confirmed ones.\<close>

theorem start_period_aborts_stale:
  assumes "hm_get (pending (sys_state w)) i = Some xt"
  shows "\<exists>xt'. hm_get (pending (sys_state (snd (handle_start_period C p w)))) i = Some xt' \<and>
    (if 0 < xt_period_id xt \<and> xt_period_id xt < p \<and> xt_confirmed_at xt = None \<and> xt_decision xt = None
     then xt_decision xt' = Some False \<and> xt_decided_at xt' = Some (clock C) else xt' = xt)"
proof -
  obtain a b s where sec: "start_period_section C p (sys_state w) = (a, b, s)" by (metis prod_cases3)
  obtain q w1 where ab: "abort_all C b (w\<lparr>sys_state := s\<rparr>) = (q, w1)" by force
  have st: "sys_state w1 = s" using abort_all_state[of C b "w\<lparr>sys_state := s\<rparr>"] ab by simp
  have "sys_state (fold (\<lambda>raw. emit (EPublisherVote raw False)) a w2) = sys_state w2" for w2
    by (induction a arbitrary: w2) (simp_all add: emit_def)
  then have "sys_state (snd (handle_start_period C p w)) = s"
    using sec ab st by (simp add: handle_start_period_def split: sum.split)
  moreover have "s = snd (snd (start_period_section C p (sys_state w)))" using sec by simp
  ultimately show ?thesis
    using assms
    by (auto simp: start_period_section_def Let_def hm_simps stale_def word_neq_0_conv not_le record_decision_def)
qed

theorem start_period_aborts_stale_witness:
  "\<exists>xt'. hm_get (pending (sys_state (snd (handle_start_period demo_coordinator 5
      (demo_sys (demo_xt\<lparr>xt_period_id := 4\<rparr>)))))) ''xt-1-1'' = Some xt' \<and> xt_decision xt' = Some False"
proof -
  have "hm_get (pending (sys_state (demo_sys (demo_xt\<lparr>xt_period_id := 4\<rparr>)))) ''xt-1-1'' = Some (demo_xt\<lparr>xt_period_id := 4\<rparr>)"
    by (simp add: demo_sys_def demo_xt_def pending_xt_new_def)
  from start_period_aborts_stale[OF this, of demo_coordinator 5] show ?thesis
    by (auto simp: demo_xt_def pending_xt_new_def)
qed

text \<open>The housekeeping task keeps the invariant, and never drops an XT nobody has decided.\<close>

lemma cleanup_loop_inv:
  assumes "coord_inv s" "\<And>now f s. (now, f) \<in> set ticks \<Longrightarrow> coord_inv s \<Longrightarrow> coord_inv (f s)"
  shows "coord_inv (cleanup_loop C ticks s)"
  using assms
proof (induction C ticks s rule: cleanup_loop.induct)
  case (2 C now f ticks s)
  have inv: "coord_inv (f s)" using "2.prems"(2)[of now f s] "2.prems"(1) by simp
  have o: "coord_inv (g t)" if "(k, g) \<in> set ticks" "coord_inv t" for k g t using "2.prems"(2)[of k g t] that by simp
  show ?case unfolding cleanup_loop.simps by (rule "2.IH") (fact cleanup_inv[OF inv], erule o)
qed simp

lemma cleanup_loop_keeps_undecided:
  assumes "coord_inv s" "\<And>now f s. (now, f) \<in> set ticks \<Longrightarrow> coord_inv s \<Longrightarrow> coord_inv (f s)"
    and "\<And>now f s xt. (now, f) \<in> set ticks \<Longrightarrow> hm_get (pending s) i = Some xt \<Longrightarrow> hm_get (pending (f s)) i = Some xt"
    and "hm_get (pending s) i = Some xt" "xt_decided_at xt = None" "xt_confirmed_at xt = None"
  shows "hm_get (pending (cleanup_loop C ticks s)) i = Some xt"
  using assms
proof (induction C ticks s rule: cleanup_loop.induct)
  case (2 C now f ticks s)
  have inv: "coord_inv (f s)" and x: "hm_get (pending (f s)) i = Some xt"
    using "2.prems"(2)[of now f s] "2.prems"(3)[of now f s xt] "2.prems"(1,4) by simp_all
  have x': "hm_get (pending (cleanup (C\<lparr>clock := now\<rparr>) 300 (f s))) i = Some xt"
    using x "2.prems"(5,6) by (simp add: cleanup_fields(1) map_of_retain[OF coord_inv_wf[OF inv]] expired_def)
  have o: "coord_inv (g t)" if "(k, g) \<in> set ticks" "coord_inv t" for k g t
    using "2.prems"(2)[of k g t] that by simp
  have p: "hm_get (pending (g t)) i = Some y"
    if "(k, g) \<in> set ticks" "hm_get (pending t) i = Some y" for k g t y using "2.prems"(3)[of k g t y] that by simp
  show ?case unfolding cleanup_loop.simps
    by (rule "2.IH") (fact cleanup_inv[OF inv] x' "2.prems"(5,6) | erule (1) o p)+
qed simp

text \<open>C27: housekeeping removes exactly the finished XTs whose confirmation, or decision when they are not
  confirmed, is older than the given age.  An undecided XT is never removed, a kept XT is unchanged, and
  no message is kept for an XT that is not registered.\<close>

theorem cleanup_exact:
  assumes "coord_inv s"
  shows "hm_get (pending (cleanup C a s)) i =
      (case hm_get (pending s) i of
        None \<Rightarrow> None
      | Some xt \<Rightarrow>
          if xt_decision xt = None \<and> xt_confirmed_at xt = None then Some xt
          else if clock C - (case xt_confirmed_at xt of Some t \<Rightarrow> t | None \<Rightarrow> the (xt_decided_at xt)) > a then None
          else Some xt) \<and>
    (hm_contains (mailbox_buffer (cleanup C a s)) raw \<longleftrightarrow>
      hm_contains (mailbox_buffer s) raw \<and> hm_contains (mailbox_index (cleanup C a s)) raw)"
proof -
  have "hm_get (pending (cleanup C a s)) i =
      (case hm_get (pending s) i of None \<Rightarrow> None | Some xt \<Rightarrow> if expired (clock C) a xt then None else Some xt)"
    by (simp add: cleanup_fields(1) map_of_retain[OF coord_inv_wf[OF assms]] split: option.split)
  moreover have "xt_decision xt = None \<longleftrightarrow> xt_decided_at xt = None" if "hm_get (pending s) i = Some xt" for xt
    using coord_inv_xt[OF assms that] by (simp add: xt_inv_def)
  moreover have "hm_contains (mailbox_buffer (cleanup C a s)) raw \<longleftrightarrow>
      hm_contains (mailbox_buffer s) raw \<and> hm_contains (mailbox_index (cleanup C a s)) raw"
    using hm_contains_keys[of "mailbox_buffer s" raw]
    by (auto simp: cleanup_fields(4) hm_contains_iff fold_remove_lookup split: if_splits)
  ultimately show ?thesis by (auto simp: expired_def split: option.split)
qed

theorem cleanup_exact_witness:
  "hm_get (pending (cleanup (demo_coordinator\<lparr>clock := 400\<rparr>) 300
      (coordinator_state_new\<lparr>pending := [(''xt-1-1'', record_decision 3 False (demo_xt\<lparr>xt_instance_id := as_bytes ''xt-1-1''\<rparr>))]\<rparr>))) ''xt-1-1'' = None"
proof -
  let ?s = "coordinator_state_new\<lparr>pending := [(''xt-1-1'', record_decision 3 False (demo_xt\<lparr>xt_instance_id := as_bytes ''xt-1-1''\<rparr>))]\<rparr>"
  have "coord_inv ?s"
    by (auto simp: inv_defs coordinator_state_new_def undecided_count_def demo_xt_def hm_simps
        max_pending_xts_def xt_inv_def pending_xt_new_def record_decision_def)
  from cleanup_exact[OF this, of "demo_coordinator\<lparr>clock := 400\<rparr>" 300 "''xt-1-1''" "[]"] show ?thesis
    by (simp add: demo_xt_def pending_xt_new_def record_decision_def)
qed

end
