(* ===== verification/Simulation_Pipeline.thy ===== *)
theory Simulation_Pipeline
  imports Lifecycle
begin

text \<open>
  The simulation pipeline, \<open>coordinator/src/pipeline/simulation.rs\<close>: verification and
  permission checks, the retry loop that simulates each local transaction, waits for
  the mailbox messages it depends on and sends the messages it produces, and the
  final vote.

  While \<open>process_xt\<close> waits for mailbox messages, other handlers run.  What happens at
  a wait is a \<open>wait_event\<close>: the task is woken by a notification, after the other
  handlers changed the system, or the deadline passes.  A run is given the list of
  its wait events; at the end of the list the deadline passes.  The loop has no other
  bound, and its termination proof uses the events and the messages consumed.
\<close>

section \<open>Checks before the simulation\<close>

definition verify_xt ::
  "coordinator \<Rightarrow> instance_id \<Rightarrow> bytes list \<Rightarrow> coordinator_state \<Rightarrow> (string, unit) result" where
  "verify_xt C i txs s =
    (if \<not> verification_enabled (verification C) then Inr ()
     else
       let origin_chain = (case hm_get (pending s) i of None \<Rightarrow> None | Some xt \<Rightarrow> xt_origin_chain xt);
           payload = \<lparr>payload_instance_id = i, payload_dest_chain_id = chain_id C,
                      payload_origin_chain_id = origin_chain, payload_txs = map (hex_encode (ext C)) txs\<rparr>
       in case verification_client C of
            None \<Rightarrow> Inl ''verification client not configured''
          | Some post \<Rightarrow>
              (case post payload of
                Inl e \<Rightarrow> Inl (''verification request failed: '' @ e)
              | Inr (code, printed) \<Rightarrow>
                  if \<not> (200 \<le> code \<and> code < 300) then Inl (''verification rejected with status '' @ printed)
                  else Inr ()))"

fun check_senders :: "coordinator \<Rightarrow> permission_engine \<Rightarrow> u64 list \<Rightarrow> bytes list \<Rightarrow> (string, unit) result" where
  "check_senders C engine involved [] = Inr ()"
| "check_senders C engine involved (tx # txs) =
    (case decode_sender_nonce C tx of
      None \<Rightarrow> Inl ''sender recovery failed''
    | Some (sender, _) \<Rightarrow>
        (case evaluate_xt engine sender (chain_id C) involved of
          Deny reason \<Rightarrow> Inl (deny_reason_str reason)
        | Allow \<Rightarrow> check_senders C engine involved txs))"

definition check_xt_permissions ::
  "coordinator \<Rightarrow> instance_id \<Rightarrow> bytes list \<Rightarrow> coordinator_state \<Rightarrow> (string, unit) result" where
  "check_xt_permissions C i local_txs s =
    (case permission C of
      None \<Rightarrow> Inr ()
    | Some engine \<Rightarrow>
        (case hm_get (pending s) i of
          None \<Rightarrow> Inr ()
        | Some xt \<Rightarrow> check_senders C engine (hm_keys (xt_raw_txs xt)) local_txs))"

section \<open>Recording a simulation\<close>

definition merge_success :: "simulation_result \<Rightarrow> state_override \<Rightarrow> state_override" where
  "merge_success r ov =
    (if sim_success r then (case sim_state_overrides r of None \<Rightarrow> ov | Some res \<Rightarrow> merge_overrides ov res) else ov)"

definition push_dependency :: "dependency \<Rightarrow> pending_xt \<Rightarrow> pending_xt" where
  "push_dependency dep xt =
    (let key = dependency_key_from dep in
     if key \<in> xt_dep_keys xt then xt
     else xt\<lparr>xt_dep_keys := insert key (xt_dep_keys xt), xt_dependencies := xt_dependencies xt @ [dep]\<rparr>)"

definition push_outbound :: "out_message \<Rightarrow> pending_xt \<Rightarrow> pending_xt" where
  "push_outbound msg xt =
    (if contains_message (xt_outbound_messages xt) msg then xt
     else xt\<lparr>xt_outbound_messages := xt_outbound_messages xt @ [msg]\<rparr>)"

definition record_simulation_state ::
  "coordinator \<Rightarrow> instance_id \<Rightarrow> simulation_result \<Rightarrow> state_override \<Rightarrow> coordinator_state
    \<Rightarrow> state_override \<times> coordinator_state" where
  "record_simulation_state C i result base s =
    (if \<not> hm_contains (pending s) i then (base, s)
     else
       let overlay = (case hm_get (chain_overlay s) (chain_id C) of None \<Rightarrow> [] | Some ov \<Rightarrow> ov);
           s = (case (if sim_success result then sim_state_overrides result else None) of
                  None \<Rightarrow> s
                | Some res \<Rightarrow>
                    s\<lparr>chain_overlay := hm_insert (chain_id C) (merge_overrides overlay res) (chain_overlay s)\<rparr>)
       in (merge_success result base,
           update_xt i (\<lambda>xt. fold push_outbound (sim_outbound_messages result)
             (fold push_dependency (sim_dependencies result) xt)) s))"

section \<open>Consuming mailbox messages\<close>

text \<open>\<open>Vec::swap_remove\<close> for an index in range.\<close>

definition swap_remove :: "nat \<Rightarrow> 'a list \<Rightarrow> 'a list" where
  "swap_remove k xs = butlast (xs[k := last xs])"

fun position :: "('a \<Rightarrow> bool) \<Rightarrow> 'a list \<Rightarrow> nat option" where
  "position P [] = None"
| "position P (x # xs) = (if P x then Some 0 else map_option Suc (position P xs))"

definition fulfill_one :: "dependency \<Rightarrow> nat \<times> pending_xt \<Rightarrow> nat \<times> pending_xt" where
  "fulfill_one dep = (\<lambda>(added, xt).
     let key = dependency_key_from dep in
     if key \<in> xt_fulfilled_dep_keys xt then (added, xt)
     else case position (\<lambda>msg. matches_dependency msg dep) (xt_pending_mailbox xt) of
       None \<Rightarrow> (added, xt)
     | Some idx \<Rightarrow>
         (added + 1,
          xt\<lparr>xt_pending_mailbox := swap_remove idx (xt_pending_mailbox xt),
             xt_fulfilled_dep_keys := insert key (xt_fulfilled_dep_keys xt),
             xt_fulfilled_deps := xt_fulfilled_deps xt
               @ [dep\<lparr>dep_data := Some (msg_payload (xt_pending_mailbox xt ! idx))\<rparr>]\<rparr>))"

definition fulfill_dependencies_from_mailbox ::
  "instance_id \<Rightarrow> dependency list \<Rightarrow> coordinator_state \<Rightarrow> nat \<times> coordinator_state" where
  "fulfill_dependencies_from_mailbox i deps s =
    (case hm_get (pending s) i of
      None \<Rightarrow> (0, s)
    | Some xt \<Rightarrow>
        (let (added, xt) = fold fulfill_one deps (0, xt)
         in (added, s\<lparr>pending := hm_insert i xt (pending s)\<rparr>)))"

datatype wait_event = Notified "sys \<Rightarrow> sys" | Deadline

fun wait_for_dependencies ::
  "instance_id \<Rightarrow> dependency list \<Rightarrow> wait_event list \<Rightarrow> sys \<Rightarrow> bool \<times> wait_event list \<times> sys" where
  "wait_for_dependencies i deps events w =
    (let (fulfilled, s) = fulfill_dependencies_from_mailbox i deps (sys_state w);
         w = w\<lparr>sys_state := s\<rparr>
     in if fulfilled > 0 then (True, events, w)
        else case events of
          [] \<Rightarrow> (False, [], w)
        | Deadline # events \<Rightarrow> (False, events, w)
        | Notified f # events \<Rightarrow> wait_for_dependencies i deps events (f w))"

declare wait_for_dependencies.simps [simp del]

section \<open>Sending mailbox messages\<close>

definition to_mailbox_message :: "bytes \<Rightarrow> out_message \<Rightarrow> mailbox_message" where
  "to_mailbox_message raw msg =
    \<lparr>msg_instance_id = raw, msg_source_chain = out_source_chain_id msg,
     msg_destination_chain = out_dest_chain_id msg, msg_sender = address_bytes (out_sender msg),
     msg_receiver = address_bytes (out_receiver msg), msg_label = out_label msg, msg_payload = out_data msg,
     msg_session_id = encode_session_id (out_session_id msg)\<rparr>"

definition queue_outbound ::
  "out_message \<Rightarrow> mailbox_message list \<times> pending_xt \<Rightarrow> mailbox_message list \<times> pending_xt" where
  "queue_outbound msg = (\<lambda>(to_send, xt).
     let mailbox_msg = to_mailbox_message (xt_instance_id xt) msg;
         key = mailbox_message_key_from mailbox_msg
     in if key \<in> xt_sent_mailbox_keys xt then (to_send, xt)
        else (to_send @ [mailbox_msg], xt\<lparr>xt_sent_mailbox_keys := insert key (xt_sent_mailbox_keys xt)\<rparr>))"

fun send_all ::
  "(u64 \<Rightarrow> mailbox_message \<Rightarrow> (coordinator_error, unit) result) \<Rightarrow> mailbox_message list \<Rightarrow> sys
    \<Rightarrow> (coordinator_error, unit) result \<times> sys" where
  "send_all sender [] w = (Inr (), w)"
| "send_all sender (msg # msgs) w =
    (let w = emit (EMailboxSend (msg_destination_chain msg) msg) w in
     case sender (msg_destination_chain msg) msg of
       Inl err \<Rightarrow> (Inl err, w)
     | Inr _ \<Rightarrow> send_all sender msgs w)"

definition dispatch_outbound_mailbox ::
  "coordinator \<Rightarrow> instance_id \<Rightarrow> out_message list \<Rightarrow> sys \<Rightarrow> (coordinator_error, unit) result \<times> sys" where
  "dispatch_outbound_mailbox C i outbound w =
    (if outbound = [] then (Inr (), w)
     else case mailbox_sender C of
       None \<Rightarrow> (Inr (), w)
     | Some sender \<Rightarrow>
         (case hm_get (pending (sys_state w)) i of
           None \<Rightarrow> (Inr (), w)
         | Some xt \<Rightarrow>
             (let (to_send, xt) = fold queue_outbound outbound ([], xt);
                  s = (sys_state w)\<lparr>pending := hm_insert i xt (pending (sys_state w))\<rparr>
              in send_all sender to_send (w\<lparr>sys_state := s\<rparr>))))"

section \<open>Lemmas on the steps\<close>

lemma position_Some:
  "position P xs = Some k \<Longrightarrow> k < length xs \<and> P (xs ! k)"
  by (induction xs arbitrary: k) (auto split: if_splits)

lemma position_None: "position P xs = None \<longleftrightarrow> (\<forall>x \<in> set xs. \<not> P x)"
  by (induction xs) auto

lemma length_swap_remove [simp]: "length (swap_remove k xs) = length xs - 1"
  by (simp add: swap_remove_def)

lemma mset_swap_remove:
  assumes "k < length xs"
  shows "add_mset (xs ! k) (mset (swap_remove k xs)) = mset xs"
proof -
  have ne: "xs[k := last xs] \<noteq> []" using assms by auto
  have l: "last (xs[k := last xs]) = last xs"
    using assms by (cases "xs = []") (auto simp: last_list_update)
  have "mset (xs[k := last xs]) = add_mset (last xs) (mset xs - {# xs ! k #})"
    using assms by (simp add: mset_update)
  moreover have "mset (butlast (xs[k := last xs])) = mset (xs[k := last xs]) - {# last xs #}"
    using append_butlast_last_id[OF ne] l by (metis add_diff_cancel_right' mset.simps(1,2) mset_append)
  ultimately show ?thesis using assms by (simp add: swap_remove_def)
qed

lemma fulfill_one_mailbox:
  "fst p < fst (fulfill_one d p) \<and> length (xt_pending_mailbox (snd (fulfill_one d p))) < length (xt_pending_mailbox (snd p)) \<or>
   fulfill_one d p = p"
  by (cases p) (auto simp: fulfill_one_def Let_def dest: position_Some split: option.split)

lemma fold_fulfill_mailbox:
  "fst p < fst (fold fulfill_one ds p) \<and>
     length (xt_pending_mailbox (snd (fold fulfill_one ds p))) < length (xt_pending_mailbox (snd p)) \<or>
   fold fulfill_one ds p = p"
proof (induction ds arbitrary: p)
  case (Cons d ds)
  show ?case using fulfill_one_mailbox[of p d] Cons[of "fulfill_one d p"] by auto
qed simp

definition mailbox_load :: "instance_id \<Rightarrow> sys \<Rightarrow> nat" where
  "mailbox_load i w =
    (case hm_get (pending (sys_state w)) i of None \<Rightarrow> 0 | Some xt \<Rightarrow> length (xt_pending_mailbox xt))"

lemma fulfill_load:
  assumes "fulfill_dependencies_from_mailbox i deps (sys_state w) = (n, s)" "n > 0"
  shows "mailbox_load i (w\<lparr>sys_state := s\<rparr>) < mailbox_load i w"
proof -
  obtain xt where xt: "hm_get (pending (sys_state w)) i = Some xt"
    using assms by (auto simp: fulfill_dependencies_from_mailbox_def split: option.splits)
  obtain a x where f: "fold fulfill_one deps (0, xt) = (a, x)" by force
  then have "n = a" "s = (sys_state w)\<lparr>pending := hm_insert i x (pending (sys_state w))\<rparr>"
    using assms xt by (auto simp: fulfill_dependencies_from_mailbox_def)
  then show ?thesis
    using fold_fulfill_mailbox[of "(0, xt)" deps] f assms(2) xt by (auto simp: mailbox_load_def hm_simps)
qed

lemma wait_measure:
  "wait_for_dependencies i deps evs w = (True, evs', w') \<Longrightarrow>
    length evs' < length evs \<or> evs' = evs \<and> mailbox_load i w' < mailbox_load i w"
proof (induction evs arbitrary: w)
  case Nil
  then show ?case
    using fulfill_load[of i deps w] wait_for_dependencies.simps[of i deps "[]" w]
    by (auto simp: Let_def split: prod.splits if_splits)
next
  case (Cons e evs)
  obtain n s where f: "fulfill_dependencies_from_mailbox i deps (sys_state w) = (n, s)" by force
  show ?case
  proof (cases "n > 0")
    case True
    then show ?thesis
      using Cons.prems f fulfill_load[OF f] wait_for_dependencies.simps[of i deps "e # evs" w] by auto
  next
    case False
    then obtain g where "e = Notified g" "wait_for_dependencies i deps evs (g (w\<lparr>sys_state := s\<rparr>)) = (True, evs', w')"
      using Cons.prems f wait_for_dependencies.simps[of i deps "e # evs" w] by (auto simp: Let_def split: wait_event.splits)
    then show ?thesis using Cons.IH by fastforce
  qed
qed

lemma wait_events: "wait_for_dependencies i deps events w = (b, events', w') \<Longrightarrow> set events' \<subseteq> set events"
proof (induction events arbitrary: w)
  case Nil
  then show ?case
    using wait_for_dependencies.simps[of i deps "[]" w] by (auto simp: Let_def split: prod.splits if_splits)
next
  case (Cons e events)
  then show ?case
    using wait_for_dependencies.simps[of i deps "e # events" w]
    by (auto simp: Let_def split: prod.splits if_splits wait_event.splits)
qed

lemma fold_push_fields [simp]:
  "xt_pending_mailbox (fold push_dependency ds xt) = xt_pending_mailbox xt"
  "xt_local_vote (fold push_dependency ds xt) = xt_local_vote xt"
  "xt_fulfilled_deps (fold push_dependency ds xt) = xt_fulfilled_deps xt"
  "xt_pending_mailbox (fold push_outbound ms xt) = xt_pending_mailbox xt"
  "xt_local_vote (fold push_outbound ms xt) = xt_local_vote xt"
  "xt_fulfilled_deps (fold push_outbound ms xt) = xt_fulfilled_deps xt"
proof -
  show "xt_pending_mailbox (fold push_dependency ds xt) = xt_pending_mailbox xt"
    "xt_local_vote (fold push_dependency ds xt) = xt_local_vote xt"
    "xt_fulfilled_deps (fold push_dependency ds xt) = xt_fulfilled_deps xt"
    by (induction ds arbitrary: xt) (simp_all add: push_dependency_def Let_def)
  show "xt_pending_mailbox (fold push_outbound ms xt) = xt_pending_mailbox xt"
    "xt_local_vote (fold push_outbound ms xt) = xt_local_vote xt"
    "xt_fulfilled_deps (fold push_outbound ms xt) = xt_fulfilled_deps xt"
    by (induction ms arbitrary: xt) (simp_all add: push_outbound_def)
qed

lemma record_simulation_xt:
  "hm_get (pending (snd (record_simulation_state C i r ov s))) i =
    map_option (\<lambda>xt. fold push_outbound (sim_outbound_messages r) (fold push_dependency (sim_dependencies r) xt))
      (hm_get (pending s) i)"
  by (auto simp: record_simulation_state_def Let_def update_xt_pending hm_contains_iff split: option.split)

lemma record_simulation_load:
  "mailbox_load i (w\<lparr>sys_state := snd (record_simulation_state C i r ov (sys_state w))\<rparr>) = mailbox_load i w"
  by (simp add: mailbox_load_def record_simulation_xt split: option.split)

lemma fold_queue_fields:
  "xt_pending_mailbox (snd (fold queue_outbound ms p)) = xt_pending_mailbox (snd p) \<and>
   xt_local_vote (snd (fold queue_outbound ms p)) = xt_local_vote (snd p) \<and>
   xt_instance_id (snd (fold queue_outbound ms p)) = xt_instance_id (snd p) \<and>
   xt_fulfilled_deps (snd (fold queue_outbound ms p)) = xt_fulfilled_deps (snd p)"
  by (induction ms arbitrary: p) (auto simp: queue_outbound_def Let_def split: prod.split)

lemma send_all_state [simp]: "sys_state (snd (send_all sender ms w)) = sys_state w"
  by (induction ms arbitrary: w) (simp_all add: Let_def split: sum.split)

lemma dispatch_pending:
  "hm_get (pending (sys_state (snd (dispatch_outbound_mailbox C i ms w)))) i =
    (if ms = [] \<or> mailbox_sender C = None then hm_get (pending (sys_state w)) i
     else map_option (\<lambda>xt. snd (fold queue_outbound ms ([], xt))) (hm_get (pending (sys_state w)) i))"
  by (simp add: dispatch_outbound_mailbox_def hm_simps split: option.split prod.split)

lemma dispatch_load: "mailbox_load i (snd (dispatch_outbound_mailbox C i ms w)) = mailbox_load i w"
  using fold_queue_fields[of ms "([], _)"]
  by (auto simp: mailbox_load_def dispatch_pending split: option.split)

section \<open>The retry loop\<close>

text \<open>
  \<open>None\<close> when the body of \<open>process_xt\<close> returned, otherwise the overrides and the fulfilled
  dependencies for the next transaction.
\<close>

function simulate_tx ::
  "coordinator \<Rightarrow> (u64 \<Rightarrow> bytes \<Rightarrow> state_override \<Rightarrow> dependency list \<Rightarrow> (string, simulation_result) result)
    \<Rightarrow> instance_id \<Rightarrow> bytes \<Rightarrow> state_override \<Rightarrow> dependency list \<Rightarrow> wait_event list \<Rightarrow> sys
    \<Rightarrow> (state_override \<times> dependency list) option \<times> wait_event list \<times> sys" where
  "simulate_tx C simulate_with_mailbox i tx current_overrides fulfilled_deps events w =
    (case simulate_with_mailbox (chain_id C) tx current_overrides fulfilled_deps of
      Inl e \<Rightarrow> (None, events, snd (send_vote C i False w))
    | Inr result \<Rightarrow>
        (let (current_overrides, s) = record_simulation_state C i result current_overrides (sys_state w);
             w = w\<lparr>sys_state := s\<rparr>
         in if \<not> sim_success result \<and> sim_dependencies result = [] then
              (None, events, snd (send_vote C i False w))
            else if \<not> sim_success result \<and>
              list_all (\<lambda>dep. list_ex (\<lambda>fulfilled. dependency_keys_equal fulfilled dep) fulfilled_deps)
                (sim_dependencies result) then
              (None, events, snd (send_vote C i False w))
            else if sim_success result then
              (case dispatch_outbound_mailbox C i (sim_outbound_messages result) w of
                (Inl e, w) \<Rightarrow> (None, events, snd (send_vote C i False w))
              | (Inr _, w) \<Rightarrow> (Some (current_overrides, fulfilled_deps), events, w))
            else
              (case (if sim_outbound_messages result \<noteq> []
                     then dispatch_outbound_mailbox C i (sim_outbound_messages result) w else (Inr (), w)) of
                (Inl e, w) \<Rightarrow> (None, events, snd (send_vote C i False w))
              | (Inr _, w) \<Rightarrow>
                  (case wait_for_dependencies i (sim_dependencies result) events w of
                    (False, events, w) \<Rightarrow> (None, events, snd (send_vote C i False w))
                  | (True, events, w) \<Rightarrow>
                      (case hm_get (pending (sys_state w)) i of
                        None \<Rightarrow> (None, events, w)
                      | Some xt \<Rightarrow>
                          simulate_tx C simulate_with_mailbox i tx current_overrides (xt_fulfilled_deps xt)
                            events w)))))"
  by pat_completeness auto
termination
proof (relation "measures [\<lambda>(C, sim, i, tx, ov, fd, events, w). length events,
    \<lambda>(C, sim, i, tx, ov, fd, events, w). mailbox_load i w]", goal_cases)
  case (2 C sim i tx ov fd events w r x ov1 s1 w1 c w2 u d q events' w3 xt)
  have "mailbox_load i w2 = mailbox_load i w"
    using 2(2-4,8) dispatch_load[of i C "sim_outbound_messages r" w1] record_simulation_load[of i C r ov w]
    by (metis snd_conv)
  moreover have "wait_for_dependencies i (sim_dependencies r) events w2 = (True, events', w3)"
    using 2(10-12) by simp
  ultimately show ?case using wait_measure[of i "sim_dependencies r" events w2 events' w3] by auto
qed simp

declare simulate_tx.simps [simp del]

fun simulate_txs ::
  "coordinator \<Rightarrow> (u64 \<Rightarrow> bytes \<Rightarrow> state_override \<Rightarrow> dependency list \<Rightarrow> (string, simulation_result) result)
    \<Rightarrow> instance_id \<Rightarrow> bytes list \<Rightarrow> state_override \<Rightarrow> dependency list \<Rightarrow> wait_event list \<Rightarrow> sys
    \<Rightarrow> bool \<times> wait_event list \<times> sys" where
  "simulate_txs C sim i [] ov fd events w = (True, events, w)"
| "simulate_txs C sim i (tx # txs) ov fd events w =
    (case simulate_tx C sim i tx ov fd events w of
      (None, events, w) \<Rightarrow> (False, events, w)
    | (Some (ov, fd), events, w) \<Rightarrow> simulate_txs C sim i txs ov fd events w)"

definition lock_chain :: "coordinator \<Rightarrow> instance_id \<Rightarrow> coordinator_state \<Rightarrow> coordinator_state" where
  "lock_chain C i s = update_xt i (\<lambda>xt. xt\<lparr>xt_locked_chains := insert (chain_id C) (xt_locked_chains xt)\<rparr>) s"

definition initial_overrides :: "coordinator \<Rightarrow> coordinator_state \<Rightarrow> state_override" where
  "initial_overrides C s =
    (case hm_get (chain_overlay s) (chain_id C) of None \<Rightarrow> [] | Some overlay \<Rightarrow> merge_overrides [] overlay)"

definition process_xt :: "coordinator \<Rightarrow> instance_id \<Rightarrow> wait_event list \<Rightarrow> sys \<Rightarrow> sys" where
  "process_xt C i events w =
    (case hm_get (pending (sys_state w)) i of
      None \<Rightarrow> w
    | Some xt \<Rightarrow>
        (case hm_get (xt_raw_txs xt) (chain_id C) of
          None \<Rightarrow> snd (send_vote C i False w)
        | Some [] \<Rightarrow> snd (send_vote C i False w)
        | Some txs \<Rightarrow>
            (let current_overrides = initial_overrides C (sys_state w) in
             case verify_xt C i txs (sys_state w) of
               Inl e \<Rightarrow> snd (send_vote C i False w)
             | Inr _ \<Rightarrow>
                 (case check_xt_permissions C i txs (sys_state w) of
                   Inl reason \<Rightarrow> snd (send_vote C i False w)
                 | Inr _ \<Rightarrow>
                     (let w = w\<lparr>sys_state := lock_chain C i (sys_state w)\<rparr> in
                      case simulator C of
                        None \<Rightarrow> snd (send_vote C i True w)
                      | Some sim \<Rightarrow>
                          (case hm_get (pending (sys_state w)) i of
                            None \<Rightarrow> w
                          | Some xt \<Rightarrow>
                              (case simulate_txs C sim i txs current_overrides (xt_fulfilled_deps xt) events w of
                                (False, _, w) \<Rightarrow> w
                              | (True, _, w) \<Rightarrow> snd (send_vote C i True w))))))))"

section \<open>The vote of a run\<close>

definition vote_of :: "instance_id \<Rightarrow> sys \<Rightarrow> bool option option" where
  "vote_of i w = map_option xt_local_vote (hm_get (pending (sys_state w)) i)"

text \<open>While the task waits, the other handlers do not cast the local vote of the XT.\<close>

definition quiet :: "instance_id \<Rightarrow> wait_event list \<Rightarrow> bool" where
  "quiet i events \<longleftrightarrow> (\<forall>f w. Notified f \<in> set events \<and> vote_of i w \<in> {None, Some None} \<longrightarrow>
     vote_of i (f w) \<in> {None, Some None})"

text \<open>While the task waits, the other handlers do not remove the XT.\<close>

definition keeps :: "instance_id \<Rightarrow> wait_event list \<Rightarrow> bool" where
  "keeps i events \<longleftrightarrow> (\<forall>f w. Notified f \<in> set events \<and> vote_of i w \<noteq> None \<longrightarrow> vote_of i (f w) \<noteq> None)"

text \<open>The transactions succeed one after the other, each on the state the earlier ones left.\<close>

fun simulates ::
  "(u64 \<Rightarrow> bytes \<Rightarrow> state_override \<Rightarrow> dependency list \<Rightarrow> (string, simulation_result) result)
    \<Rightarrow> u64 \<Rightarrow> state_override \<Rightarrow> bytes list \<Rightarrow> dependency list list \<Rightarrow> bool" where
  "simulates sim cid ov [] fds = (fds = [])"
| "simulates sim cid ov (tx # txs) [] = False"
| "simulates sim cid ov (tx # txs) (fd # fds) =
    (case sim cid tx ov fd of
      Inl e \<Rightarrow> False
    | Inr r \<Rightarrow> sim_success r \<and> simulates sim cid (merge_success r ov) txs fds)"

lemma vote_of_None: "hm_get (pending (sys_state w)) i = None \<Longrightarrow> vote_of i w = None"
  by (simp add: vote_of_def)

lemma quiet_subset: "set events' \<subseteq> set events \<Longrightarrow> quiet i events \<Longrightarrow> quiet i events'"
  unfolding quiet_def by blast

lemma keeps_subset: "set events' \<subseteq> set events \<Longrightarrow> keeps i events \<Longrightarrow> keeps i events'"
  unfolding keeps_def by blast

lemma send_vote_vote_of:
  "vote_of i (snd (send_vote C i v w)) =
    (case vote_of i w of None \<Rightarrow> None | Some None \<Rightarrow> Some (Some v) | Some (Some x) \<Rightarrow> Some (Some x))"
  unfolding vote_of_def send_vote_state
  by (subst send_vote_section_eq)
    (auto simp: update_xt_pending cast_vote_def Let_def split: option.split)

lemma fulfill_vote_of:
  assumes "fulfill_dependencies_from_mailbox i deps (sys_state w) = (n, s)"
  shows "vote_of i (w\<lparr>sys_state := s\<rparr>) = vote_of i w" "n > 0 \<Longrightarrow> vote_of i w \<noteq> None"
proof -
  have "xt_local_vote (snd (fold fulfill_one deps p)) = xt_local_vote (snd p)" for p
    by (induction deps arbitrary: p) (auto simp: fulfill_one_def Let_def split: prod.split option.split)
  then show "vote_of i (w\<lparr>sys_state := s\<rparr>) = vote_of i w"
    using assms
    by (auto simp: fulfill_dependencies_from_mailbox_def vote_of_def hm_simps split: option.splits prod.splits)
      (metis snd_conv)+
  show "n > 0 \<Longrightarrow> vote_of i w \<noteq> None"
    using assms by (auto simp: fulfill_dependencies_from_mailbox_def vote_of_def split: option.splits)
qed

lemma wait_votes:
  "wait_for_dependencies i deps events w = (b, events', w') \<Longrightarrow> quiet i events \<Longrightarrow>
    vote_of i w \<in> {None, Some None} \<Longrightarrow>
    set events' \<subseteq> set events \<and> vote_of i w' \<in> {None, Some None} \<and> (b \<longrightarrow> vote_of i w' = Some None) \<and>
    (keeps i events \<and> vote_of i w \<noteq> None \<longrightarrow> vote_of i w' \<noteq> None)"
proof (induction events arbitrary: w)
  case Nil
  obtain n s where f: "fulfill_dependencies_from_mailbox i deps (sys_state w) = (n, s)" by force
  then show ?case
    using Nil fulfill_vote_of[OF f] wait_for_dependencies.simps[of i deps "[]" w]
    by (auto simp: Let_def split: if_splits)
next
  case (Cons e events)
  obtain n s where f: "fulfill_dependencies_from_mailbox i deps (sys_state w) = (n, s)" by force
  let ?w = "w\<lparr>sys_state := s\<rparr>"
  note step = wait_for_dependencies.simps[of i deps "e # events" w]
  show ?case
  proof (cases "n > 0 \<or> e = Deadline")
    case True
    then show ?thesis
      using Cons.prems fulfill_vote_of[OF f] step f by (auto simp: Let_def split: if_splits)
  next
    case False
    then obtain g where e: "e = Notified g" by (cases e) auto
    have w: "wait_for_dependencies i deps events (g ?w) = (b, events', w')"
      using Cons.prems(1) False e f step by (simp add: Let_def)
    have q: "quiet i events" "vote_of i (g ?w) \<in> {None, Some None}"
      and k: "keeps i (e # events) \<Longrightarrow> keeps i events"
        "keeps i (e # events) \<and> vote_of i w \<noteq> None \<Longrightarrow> vote_of i (g ?w) \<noteq> None"
      using Cons.prems(2,3) fulfill_vote_of(1)[OF f] unfolding e quiet_def keeps_def by auto
    then show ?thesis using Cons.IH[OF w q] by auto
  qed
qed

lemma record_simulation_vote_of:
  "vote_of i (w\<lparr>sys_state := snd (record_simulation_state C i r ov (sys_state w))\<rparr>) = vote_of i w"
  by (cases "hm_get (pending (sys_state w)) i") (simp_all add: vote_of_def record_simulation_xt)

lemma dispatch_vote_of: "vote_of i (snd (dispatch_outbound_mailbox C i ms w)) = vote_of i w"
  using fold_queue_fields[of ms "([], _)"]
  by (cases "hm_get (pending (sys_state w)) i") (simp_all add: vote_of_def dispatch_pending)

lemma record_simulation_overrides:
  "vote_of i w \<noteq> None \<Longrightarrow> fst (record_simulation_state C i r ov (sys_state w)) = merge_success r ov"
  by (simp add: record_simulation_state_def vote_of_def hm_contains_iff Let_def)

section \<open>The retry loop, branch by branch\<close>

abbreviation already_fulfilled :: "dependency list \<Rightarrow> simulation_result \<Rightarrow> bool" where
  "already_fulfilled fd r \<equiv>
    list_all (\<lambda>dep. list_ex (\<lambda>fulfilled. dependency_keys_equal fulfilled dep) fd) (sim_dependencies r)"

abbreviation recorded :: "coordinator \<Rightarrow> instance_id \<Rightarrow> simulation_result \<Rightarrow> state_override \<Rightarrow> sys \<Rightarrow> sys" where
  "recorded C i r ov w \<equiv> w\<lparr>sys_state := snd (record_simulation_state C i r ov (sys_state w))\<rparr>"

lemma simulate_tx_error:
  "sim (chain_id C) tx ov fd = Inl e \<Longrightarrow>
    simulate_tx C sim i tx ov fd events w = (None, events, snd (send_vote C i False w))"
  by (subst simulate_tx.simps) simp

lemma simulate_tx_hopeless:
  "sim (chain_id C) tx ov fd = Inr r \<Longrightarrow> \<not> sim_success r \<Longrightarrow> sim_dependencies r = [] \<or> already_fulfilled fd r \<Longrightarrow>
    simulate_tx C sim i tx ov fd events w = (None, events, snd (send_vote C i False (recorded C i r ov w)))"
  by (subst simulate_tx.simps) (auto simp: Let_def split: prod.split)

lemma simulate_tx_success:
  "sim (chain_id C) tx ov fd = Inr r \<Longrightarrow> sim_success r \<Longrightarrow>
    dispatch_outbound_mailbox C i (sim_outbound_messages r) (recorded C i r ov w) = (d, w') \<Longrightarrow>
    simulate_tx C sim i tx ov fd events w =
      (case d of
        Inl e \<Rightarrow> (None, events, snd (send_vote C i False w'))
      | Inr _ \<Rightarrow> (Some (fst (record_simulation_state C i r ov (sys_state w)), fd), events, w'))"
  by (subst simulate_tx.simps) (auto simp: Let_def split: prod.split sum.split)

lemma simulate_tx_wait:
  assumes "sim (chain_id C) tx ov fd = Inr r" "\<not> sim_success r" "sim_dependencies r \<noteq> []" "\<not> already_fulfilled fd r"
    and "dispatch_outbound_mailbox C i (sim_outbound_messages r) (recorded C i r ov w) = (d, w1)"
    and "wait_for_dependencies i (sim_dependencies r) events w1 = (b, events', w2)"
  shows "simulate_tx C sim i tx ov fd events w =
    (case d of
      Inl e \<Rightarrow> (None, events, snd (send_vote C i False w1))
    | Inr _ \<Rightarrow>
        if b then (case hm_get (pending (sys_state w2)) i of
            None \<Rightarrow> (None, events', w2)
          | Some xt \<Rightarrow> simulate_tx C sim i tx ov (xt_fulfilled_deps xt) events' w2)
        else (None, events', snd (send_vote C i False w2)))"
proof -
  have ov: "fst (record_simulation_state C i r ov (sys_state w)) = ov"
    using assms(2) by (simp add: record_simulation_state_def merge_success_def Let_def)
  obtain ov1 s1 where rec: "record_simulation_state C i r ov (sys_state w) = (ov1, s1)" by force
  have empty: "sim_outbound_messages r = [] \<Longrightarrow> d = Inr () \<and> w1 = w\<lparr>sys_state := s1\<rparr>"
    using assms(5) rec by (simp add: dispatch_outbound_mailbox_def)
  show ?thesis
    using empty assms(1-6) ov rec
    by (cases "sim_outbound_messages r = []"; subst simulate_tx.simps) (simp_all add: Let_def split: sum.split)
qed

text \<open>
  What a run of the loop preserves, with the parts it is made of: \<open>I\<close> holds while the
  task runs, \<open>J\<close> when a wait ends at the deadline, \<open>K\<close> when the task has given up.
\<close>

locale simulation_run =
  fixes C :: coordinator
    and i :: instance_id
    and ok :: "wait_event list \<Rightarrow> bool"
    and I :: "sys \<Rightarrow> bool"
    and J :: "sys \<Rightarrow> bool"
    and K :: "sys \<Rightarrow> bool"
  assumes record_I: "I w \<Longrightarrow> I (recorded C i r ov w)"
    and dispatch_I: "I w \<Longrightarrow> I (snd (dispatch_outbound_mailbox C i ms w))"
    and wait_IJ: "ok events \<Longrightarrow> I w \<Longrightarrow> wait_for_dependencies i deps events w = (b, events', w') \<Longrightarrow>
      ok events' \<and> (if b then I w' else J w')"
    and IJ: "I w \<Longrightarrow> J w"
    and vote_K: "J w \<Longrightarrow> K (snd (send_vote C i False w))"
    and gone_K: "I w \<Longrightarrow> hm_get (pending (sys_state w)) i = None \<Longrightarrow> K w"
begin

lemma run_tx:
  "simulate_tx C sim i tx ov fd events w = (res, events', w') \<Longrightarrow> ok events \<Longrightarrow> I w \<Longrightarrow>
    ok events' \<and>
    (case res of
      None \<Rightarrow> K w'
    | Some (ov', fd') \<Rightarrow> I w' \<and>
        (\<exists>r w0. sim (chain_id C) tx ov fd' = Inr r \<and> sim_success r \<and> I w0 \<and>
           ov' = fst (record_simulation_state C i r ov (sys_state w0))))"
proof (induction "(events, w)" arbitrary: fd events w
    rule: wf_induct_rule[OF wf_measures[of "[\<lambda>(e, w). length e, \<lambda>(e, w). mailbox_load i w]"]])
  case (1 events w fd)
  show ?case
  proof (cases "sim (chain_id C) tx ov fd")
    case (Inl e)
    then show ?thesis using 1(2-4) simulate_tx_error[of sim C tx ov fd e i events w, OF Inl] by (auto intro: IJ vote_K)
  next
    case (Inr r)
    obtain d w1 where d: "dispatch_outbound_mailbox C i (sim_outbound_messages r) (recorded C i r ov w) = (d, w1)"
      by force
    have I1: "I (recorded C i r ov w)" "I w1" using dispatch_I[OF record_I[OF 1(4)]] record_I[OF 1(4)] d by (metis snd_conv)+
    consider (hopeless) "\<not> sim_success r" "sim_dependencies r = [] \<or> already_fulfilled fd r"
      | (success) "sim_success r"
      | (waits) "\<not> sim_success r" "sim_dependencies r \<noteq> []" "\<not> already_fulfilled fd r" by blast
    then show ?thesis
    proof cases
      case hopeless
      then show ?thesis using 1(2,3) simulate_tx_hopeless[of sim C tx ov fd r, OF Inr hopeless] I1 by (auto intro: IJ vote_K)
    next
      case success
      then show ?thesis
        using 1(2-4) simulate_tx_success[of sim C tx ov fd r, OF Inr success d] I1 Inr by (cases d) (auto intro: IJ vote_K)
    next
      case waits
      obtain b ev2 w2 where wt: "wait_for_dependencies i (sim_dependencies r) events w1 = (b, ev2, w2)"
        by (metis prod_cases3)
      note eq = simulate_tx_wait[of sim C tx ov fd r, OF Inr waits d wt]
      note w2 = wait_IJ[OF 1(3) I1(2) wt]
      show ?thesis
      proof (cases "\<exists>u xt. d = Inr u \<and> b \<and> hm_get (pending (sys_state w2)) i = Some xt")
        case False
        then show ?thesis
          using 1(2,3) eq w2 I1 by (cases d) (auto intro: IJ vote_K gone_K split: if_splits option.splits)
      next
        case True
        then obtain u xt where u: "d = Inr u" "b" "hm_get (pending (sys_state w2)) i = Some xt" by blast
        have "mailbox_load i w1 = mailbox_load i w"
          using dispatch_load[of i C "sim_outbound_messages r" "recorded C i r ov w"] d
            record_simulation_load[of i C r ov w] by simp
        then have "((ev2, w2), (events, w)) \<in> measures [\<lambda>(e, w). length e, \<lambda>(e, w). mailbox_load i w]"
          using wait_measure[of i "sim_dependencies r" events w1 ev2 w2] wt u(2) by auto
        from 1(1)[OF this, of "xt_fulfilled_deps xt"] show ?thesis using 1(2) eq u w2 by simp
      qed
    qed
  qed
qed

lemma run_txs:
  "simulate_txs C sim i txs ov fd events w = (b, events', w') \<Longrightarrow> ok events \<Longrightarrow> I w \<Longrightarrow> if b then I w' else K w'"
proof (induction txs arbitrary: ov fd events w)
  case (Cons tx txs)
  obtain res ev1 w1 where tx: "simulate_tx C sim i tx ov fd events w = (res, ev1, w1)" by (metis prod_cases3)
  show ?case
    using Cons.prems(1) Cons.IH run_tx[OF tx Cons.prems(2,3)] tx by (auto split: option.splits)
qed simp

end

interpretation vr: simulation_run C i "\<lambda>events. quiet i events \<and> (kept \<longrightarrow> keeps i events)"
  "\<lambda>w. vote_of i w = Some None" "\<lambda>w. vote_of i w = Some None \<or> vote_of i w = None \<and> \<not> kept"
  "\<lambda>w. vote_of i w = Some (Some False) \<or> vote_of i w = None \<and> \<not> kept"
  for C i kept
proof
  show "(quiet i events' \<and> (kept \<longrightarrow> keeps i events')) \<and>
      (if b then vote_of i w' = Some None else vote_of i w' = Some None \<or> vote_of i w' = None \<and> \<not> kept)"
    if "quiet i events \<and> (kept \<longrightarrow> keeps i events)" "vote_of i w = Some None"
      "wait_for_dependencies i deps events w = (b, events', w')" for events w deps b events' w'
    using wait_votes[OF that(3)] that(1,2) quiet_subset keeps_subset by fastforce
qed (auto simp: record_simulation_vote_of dispatch_vote_of send_vote_vote_of vote_of_None)

lemma simulate_txs_vote:
  "simulate_txs C sim i txs ov fd events w = (b, events', w') \<Longrightarrow> quiet i events \<Longrightarrow>
    (kept \<longrightarrow> keeps i events) \<Longrightarrow> vote_of i w = Some None \<Longrightarrow>
    if b then vote_of i w' = Some None \<and> (\<exists>fds. simulates sim (chain_id C) ov txs fds)
    else vote_of i w' = Some (Some False) \<or> vote_of i w' = None \<and> \<not> kept"
proof (induction txs arbitrary: ov fd events w)
  case Nil
  have "simulates sim (chain_id C) ov [] []" by simp
  then show ?case using Nil by auto
next
  case (Cons tx txs)
  obtain res ev1 w1 where tx: "simulate_tx C sim i tx ov fd events w = (res, ev1, w1)" by (metis prod_cases3)
  have v: "(quiet i ev1 \<and> (kept \<longrightarrow> keeps i ev1)) \<and>
    (case res of
      None \<Rightarrow> vote_of i w1 = Some (Some False) \<or> vote_of i w1 = None \<and> \<not> kept
    | Some (ov', fd') \<Rightarrow> vote_of i w1 = Some None \<and>
        (\<exists>r w0. sim (chain_id C) tx ov fd' = Inr r \<and> sim_success r \<and> vote_of i w0 = Some None \<and>
           ov' = fst (record_simulation_state C i r ov (sys_state w0))))"
    using vr.run_tx[OF tx, of kept] Cons.prems(2-4) by blast
  show ?case
  proof (cases res)
    case None
    then show ?thesis using Cons.prems(1) tx v by auto
  next
    case (Some p)
    obtain ov1 fd1 where p: "p = (ov1, fd1)" by force
    obtain r where r: "sim (chain_id C) tx ov fd1 = Inr r" "sim_success r" "ov1 = merge_success r ov"
      and v1: "vote_of i w1 = Some None" and ev1: "quiet i ev1" "kept \<longrightarrow> keeps i ev1"
      using v Some p by (auto simp: record_simulation_overrides)
    have rest: "simulate_txs C sim i txs ov1 fd1 ev1 w1 = (b, events', w')"
      using Cons.prems(1) tx Some p by simp
    note ih = Cons.IH[OF rest ev1 v1]
    show ?thesis
    proof (cases b)
      case True
      then obtain fds where "simulates sim (chain_id C) ov1 txs fds" using ih by auto
      then have "simulates sim (chain_id C) ov (tx # txs) (fd1 # fds)" using r by simp
      then show ?thesis using ih True by (simp only: if_True) blast
    next
      case False
      then show ?thesis using ih by auto
    qed
  qed
qed

section \<open>The sections keep the invariant\<close>

lemma xt_step_ok_fold:
  assumes "\<And>x xt. xt_step_ok (f x) xt"
  shows "xt_step_ok (fold f xs) xt"
proof (induction xs arbitrary: xt)
  case (Cons y ys)
  then have "xt_step_ok (fold f ys) (f y xt)" "xt_step_ok (f y) xt" using assms by blast+
  then show ?case unfolding xt_step_ok_def by simp
qed (simp add: xt_step_ok_def)

lemma push_dependency_ok: "xt_step_ok (push_dependency d) xt"
proof (cases "dependency_key_from d \<in> xt_dep_keys xt")
  case False
  then have "xt_inv xt \<Longrightarrow> xt_inv (push_dependency d xt)"
    by (auto simp: push_dependency_def Let_def xt_inv_def)
  then show ?thesis by (simp add: xt_step_ok_def) (simp add: push_dependency_def Let_def)
qed (simp add: push_dependency_def xt_step_ok_def)

lemma push_outbound_ok: "xt_step_ok (push_outbound m) xt"
  by (simp add: xt_step_ok_def push_outbound_def xt_inv_def)

lemma record_simulation_inv:
  assumes "coord_inv s"
  shows "coord_inv (snd (record_simulation_state C i r ov s))"
proof -
  have "xt_step_ok (\<lambda>xt. fold push_outbound ms (fold push_dependency ds xt)) xt" for ms ds xt
    using xt_step_ok_fold[of push_dependency ds xt, OF push_dependency_ok]
      xt_step_ok_fold[of push_outbound ms "fold push_dependency ds xt", OF push_outbound_ok]
    unfolding xt_step_ok_def by simp
  then show ?thesis
    using assms
    by (auto simp: record_simulation_state_def Let_def intro!: update_xt_inv split: option.split)
qed

lemma lock_chain_inv: "coord_inv s \<Longrightarrow> coord_inv (lock_chain C i s)"
  unfolding lock_chain_def by (rule update_xt_inv) (auto simp: xt_step_ok_def xt_inv_def)

lemma fold_snd_ok:
  assumes "\<And>x p. xt_step_ok (\<lambda>_. snd (f x p)) (snd p)"
  shows "xt_step_ok (\<lambda>xt. snd (fold f xs (a, xt))) xt"
proof -
  have "xt_step_ok (\<lambda>_. snd (fold f xs p)) (snd p)" for p
  proof (induction xs arbitrary: p)
    case (Cons y ys)
    from Cons[of "f y p"] assms[of y p] show ?case unfolding xt_step_ok_def by simp
  qed (simp add: xt_step_ok_def)
  from this[of "(a, xt)"] show ?thesis by (simp add: xt_step_ok_def)
qed

lemma fulfill_one_ok: "xt_step_ok (\<lambda>_. snd (fulfill_one d p)) (snd p)"
proof -
  have "dependency_key_from (d\<lparr>dep_data := x\<rparr>) = dependency_key_from d" for x
    by (simp add: dependency_key_from_def)
  then show ?thesis
    by (cases p) (auto simp: xt_step_ok_def fulfill_one_def Let_def xt_inv_def split: option.split)
qed

lemma fulfill_section_eq:
  "snd (fulfill_dependencies_from_mailbox i deps s) = update_xt i (\<lambda>xt. snd (fold fulfill_one deps (0, xt))) s"
  by (simp add: fulfill_dependencies_from_mailbox_def update_xt_def split: option.split prod.split)

lemma fulfill_inv: "coord_inv s \<Longrightarrow> coord_inv (snd (fulfill_dependencies_from_mailbox i deps s))"
  unfolding fulfill_section_eq by (erule update_xt_inv) (rule fold_snd_ok[OF fulfill_one_ok])

lemma queue_outbound_ok: "xt_step_ok (\<lambda>_. snd (queue_outbound m p)) (snd p)"
  by (cases p) (simp add: xt_step_ok_def queue_outbound_def Let_def xt_inv_def)

lemma dispatch_state:
  "sys_state (snd (dispatch_outbound_mailbox C i ms w)) =
    (if ms = [] \<or> mailbox_sender C = None then sys_state w
     else update_xt i (\<lambda>xt. snd (fold queue_outbound ms ([], xt))) (sys_state w))"
  by (simp add: dispatch_outbound_mailbox_def update_xt_def split: option.split prod.split)

lemma dispatch_inv:
  assumes "coord_inv (sys_state w)"
  shows "coord_inv (sys_state (snd (dispatch_outbound_mailbox C i ms w)))"
  using update_xt_inv[OF assms fold_snd_ok[where f = queue_outbound, OF queue_outbound_ok]] assms
  by (simp add: dispatch_state)

section \<open>What is consumed and what is sent\<close>

definition fulfils ::
  "dependency list \<Rightarrow> pending_xt \<Rightarrow> (dependency \<times> mailbox_message) list \<Rightarrow> pending_xt \<Rightarrow> bool" where
  "fulfils deps xt used xt' \<longleftrightarrow>
    mset (xt_pending_mailbox xt) = mset (xt_pending_mailbox xt') + mset (map snd used) \<and>
    xt_fulfilled_deps xt' = xt_fulfilled_deps xt @ map (\<lambda>(d, m). d\<lparr>dep_data := Some (msg_payload m)\<rparr>) used \<and>
    list_all (\<lambda>(d, m). d \<in> set deps \<and> matches_dependency m d) used \<and>
    xt_fulfilled_dep_keys xt \<subseteq> xt_fulfilled_dep_keys xt' \<and>
    (\<forall>d \<in> set deps. dependency_key_from d \<in> xt_fulfilled_dep_keys xt' \<or>
       (\<forall>m \<in> set (xt_pending_mailbox xt'). \<not> matches_dependency m d))"

lemma fulfils_skip:
  assumes "fulfils deps xt used xt'"
    and "dependency_key_from d \<in> xt_fulfilled_dep_keys xt \<or> (\<forall>m \<in> set (xt_pending_mailbox xt). \<not> matches_dependency m d)"
  shows "fulfils (d # deps) xt used xt'"
proof -
  have "set (xt_pending_mailbox xt') \<subseteq> set (xt_pending_mailbox xt)"
    using assms(1) unfolding fulfils_def by (metis mset_subset_eq_add_left set_mset_mono set_mset_mset)
  then show ?thesis using assms by (auto simp: fulfils_def list_all_iff)
qed

lemma fulfils_take:
  assumes "fulfils deps x1 used xt'" "k < length (xt_pending_mailbox xt)" "matches_dependency (xt_pending_mailbox xt ! k) d"
    and "xt_pending_mailbox x1 = swap_remove k (xt_pending_mailbox xt)"
      "xt_fulfilled_dep_keys x1 = insert (dependency_key_from d) (xt_fulfilled_dep_keys xt)"
      "xt_fulfilled_deps x1 = xt_fulfilled_deps xt @ [d\<lparr>dep_data := Some (msg_payload (xt_pending_mailbox xt ! k))\<rparr>]"
  shows "fulfils (d # deps) xt ((d, xt_pending_mailbox xt ! k) # used) xt'"
  using assms mset_swap_remove[OF assms(2)] by (auto simp: fulfils_def list_all_iff)

lemma fold_fulfill_spec:
  "fold fulfill_one deps (n, xt) = (n', xt') \<Longrightarrow> \<exists>used. n' = n + length used \<and> fulfils deps xt used xt'"
proof (induction deps arbitrary: n xt)
  case (Cons d deps)
  obtain n1 x1 where one: "fulfill_one d (n, xt) = (n1, x1)" by force
  then obtain used where u: "n' = n1 + length used" "fulfils deps x1 used xt'" using Cons by fastforce
  show ?case
  proof (cases "dependency_key_from d \<in> xt_fulfilled_dep_keys xt \<or>
      position (\<lambda>msg. matches_dependency msg d) (xt_pending_mailbox xt) = None")
    case True
    then have "n1 = n" "x1 = xt" using one by (auto simp: fulfill_one_def Let_def split: if_splits)
    then show ?thesis using u True fulfils_skip[of deps xt used xt' d] by (auto simp: position_None)
  next
    case False
    then obtain k where k: "position (\<lambda>msg. matches_dependency msg d) (xt_pending_mailbox xt) = Some k" by blast
    have "n1 = n + 1" "fulfils (d # deps) xt ((d, xt_pending_mailbox xt ! k) # used) xt'"
      using one k False position_Some[OF k] by (auto simp: fulfill_one_def Let_def intro!: fulfils_take[OF u(2)])
    then show ?thesis using u(1) by (metis add.assoc length_Cons plus_1_eq_Suc)
  qed
qed (simp add: fulfils_def)

definition sent_keys_ok :: "out_message list \<Rightarrow> pending_xt \<Rightarrow> mailbox_message list \<Rightarrow> pending_xt \<Rightarrow> bool" where
  "sent_keys_ok ms xt to_send xt' \<longleftrightarrow>
     distinct (map mailbox_message_key_from to_send) \<and>
     (\<forall>m \<in> set to_send. mailbox_message_key_from m \<notin> xt_sent_mailbox_keys xt \<and>
        m \<in> to_mailbox_message (xt_instance_id xt) ` set ms) \<and>
     xt_sent_mailbox_keys xt' = xt_sent_mailbox_keys xt \<union>
       (mailbox_message_key_from \<circ> to_mailbox_message (xt_instance_id xt)) ` set ms"

lemma queue_outbound_pair:
  "queue_outbound msg (ts, xt) =
    (let m = to_mailbox_message (xt_instance_id xt) msg in
     if mailbox_message_key_from m \<in> xt_sent_mailbox_keys xt then (ts, xt)
     else (ts @ [m], xt\<lparr>xt_sent_mailbox_keys := insert (mailbox_message_key_from m) (xt_sent_mailbox_keys xt)\<rparr>))"
  by (simp add: queue_outbound_def Let_def)

lemma fold_queue_spec:
  assumes "fold queue_outbound ms ([], xt) = (to_send, xt')"
  shows "sent_keys_ok ms xt to_send xt'"
proof -
  have "\<exists>new. to_send = ts @ new \<and> distinct (map mailbox_message_key_from new) \<and>
     (\<forall>m \<in> set new. mailbox_message_key_from m \<notin> xt_sent_mailbox_keys x \<and>
        m \<in> to_mailbox_message (xt_instance_id x) ` set ms) \<and>
     xt_sent_mailbox_keys xt' = xt_sent_mailbox_keys x \<union>
       (mailbox_message_key_from \<circ> to_mailbox_message (xt_instance_id x)) ` set ms"
    if "fold queue_outbound ms (ts, x) = (to_send, xt')" for ts x
    using that
  proof (induction ms arbitrary: ts x)
    case (Cons m ms)
    let ?m = "to_mailbox_message (xt_instance_id x) m"
    show ?case
    proof (cases "mailbox_message_key_from ?m \<in> xt_sent_mailbox_keys x")
      case True
      then have "fold queue_outbound ms (ts, x) = (to_send, xt')"
        using Cons.prems by (simp add: queue_outbound_pair Let_def)
      from Cons.IH[OF this] show ?thesis using True by auto
    next
      case False
      let ?x = "x\<lparr>xt_sent_mailbox_keys := insert (mailbox_message_key_from ?m) (xt_sent_mailbox_keys x)\<rparr>"
      have "fold queue_outbound ms (ts @ [?m], ?x) = (to_send, xt')"
        using Cons.prems False by (simp add: queue_outbound_pair Let_def)
      from Cons.IH[OF this] obtain new where new: "to_send = (ts @ [?m]) @ new"
        "distinct (map mailbox_message_key_from new)"
        "\<forall>m' \<in> set new. mailbox_message_key_from m' \<notin> xt_sent_mailbox_keys ?x \<and>
          m' \<in> to_mailbox_message (xt_instance_id ?x) ` set ms"
        "xt_sent_mailbox_keys xt' = xt_sent_mailbox_keys ?x \<union>
          (mailbox_message_key_from \<circ> to_mailbox_message (xt_instance_id ?x)) ` set ms"
        by blast
      then show ?thesis using False by (intro exI[of _ "?m # new"]) auto
    qed
  qed simp
  from this[OF assms] show ?thesis by (auto simp: sent_keys_ok_def)
qed

lemma send_all_log:
  "\<exists>k. sys_log (snd (send_all sender ms w)) =
      sys_log w @ map (\<lambda>m. EMailboxSend (msg_destination_chain m) m) (take k ms) \<and>
    (fst (send_all sender ms w) = Inr () \<longrightarrow> k \<ge> length ms)"
proof (induction ms arbitrary: w)
  case (Cons m ms)
  let ?w = "emit (EMailboxSend (msg_destination_chain m) m) w"
  obtain k where k: "sys_log (snd (send_all sender ms ?w)) =
      sys_log ?w @ map (\<lambda>m. EMailboxSend (msg_destination_chain m) m) (take k ms)"
    "fst (send_all sender ms ?w) = Inr () \<longrightarrow> k \<ge> length ms"
    using Cons by blast
  show ?case
  proof (cases "sender (msg_destination_chain m) m")
    case (Inl e)
    then show ?thesis by (intro exI[of _ 1]) (simp add: emit_def Let_def)
  next
    case (Inr u)
    then show ?thesis using k by (intro exI[of _ "Suc k"]) (simp add: emit_def Let_def)
  qed
qed simp

section \<open>Properties\<close>

text \<open>The checks that a vote to commit rests on, for the local transactions of a pending XT.\<close>

definition commit_justified :: "coordinator \<Rightarrow> instance_id \<Rightarrow> bytes list \<Rightarrow> coordinator_state \<Rightarrow> bool" where
  "commit_justified C i txs s \<longleftrightarrow>
     verify_xt C i txs s = Inr () \<and> check_xt_permissions C i txs s = Inr () \<and>
     (case simulator C of
       None \<Rightarrow> True
     | Some sim \<Rightarrow> (\<exists>fds. simulates sim (chain_id C) (initial_overrides C s) txs fds))"

lemma lock_chain_vote_of: "vote_of i (w\<lparr>sys_state := lock_chain C i (sys_state w)\<rparr>) = vote_of i w"
  by (cases "hm_get (pending (sys_state w)) i") (simp_all add: vote_of_def lock_chain_def update_xt_pending)

lemma process_xt_outcome:
  assumes xt: "hm_get (pending (sys_state w)) i = Some xt" "xt_local_vote xt = None"
    and q: "quiet i events"
  shows "vote_of i (process_xt C i events w) = Some (Some False) \<or>
    vote_of i (process_xt C i events w) = None \<and> \<not> keeps i events \<or>
    vote_of i (process_xt C i events w) = Some (Some True) \<and>
      (\<exists>txs. hm_get (xt_raw_txs xt) (chain_id C) = Some txs \<and> txs \<noteq> [] \<and> commit_justified C i txs (sys_state w))"
proof -
  have v: "vote_of i w = Some None" using xt by (simp add: vote_of_def)
  then have no: "vote_of i (snd (send_vote C i b w)) = Some (Some b)" for b by (simp add: send_vote_vote_of)
  show ?thesis
  proof (cases "\<exists>txs. hm_get (xt_raw_txs xt) (chain_id C) = Some txs \<and> txs \<noteq> [] \<and>
      verify_xt C i txs (sys_state w) = Inr () \<and> check_xt_permissions C i txs (sys_state w) = Inr ()")
    case False
    then have "process_xt C i events w = snd (send_vote C i False w)"
      using xt(1) by (auto simp: process_xt_def Let_def split: option.split list.split sum.split)
    then show ?thesis by (simp add: no)
  next
    case True
    then obtain txs where txs: "hm_get (xt_raw_txs xt) (chain_id C) = Some txs" "txs \<noteq> []"
      "verify_xt C i txs (sys_state w) = Inr ()" "check_xt_permissions C i txs (sys_state w) = Inr ()" by blast
    let ?w = "w\<lparr>sys_state := lock_chain C i (sys_state w)\<rparr>"
    have v1: "vote_of i ?w = Some None" using lock_chain_vote_of v by simp
    then obtain xt1 where xt1: "hm_get (pending (sys_state ?w)) i = Some xt1" by (auto simp: vote_of_def)
    have eq: "process_xt C i events w = (case simulator C of None \<Rightarrow> snd (send_vote C i True ?w)
        | Some sim \<Rightarrow> (case simulate_txs C sim i txs (initial_overrides C (sys_state w)) (xt_fulfilled_deps xt1) events ?w of
            (False, _, w) \<Rightarrow> w | (True, _, w) \<Rightarrow> snd (send_vote C i True w)))"
      using txs xt(1) xt1 by (cases txs) (simp_all add: process_xt_def Let_def split: option.split)
    show ?thesis
    proof (cases "simulator C")
      case None
      then show ?thesis using eq txs v1 by (simp add: send_vote_vote_of commit_justified_def)
    next
      case (Some sim)
      obtain b ev2 w2 where run: "simulate_txs C sim i txs (initial_overrides C (sys_state w)) (xt_fulfilled_deps xt1)
          events ?w = (b, ev2, w2)" by (metis prod_cases3)
      then show ?thesis
        using simulate_txs_vote[OF run q _ v1, of "keeps i events"] eq Some txs
        by (cases b) (auto simp: send_vote_vote_of commit_justified_def)
    qed
  qed
qed


definition demo_sim :: "u64 \<Rightarrow> bytes \<Rightarrow> state_override \<Rightarrow> dependency list \<Rightarrow> (string, simulation_result) result" where
  "demo_sim cid tx ov deps = Inr \<lparr>sim_success = deps \<noteq> [], sim_error = None, sim_state_overrides = Some [],
     sim_dependencies = [demo_dependency], sim_outbound_messages = []\<rparr>"


text \<open>C29: fulfilling dependencies consumes exactly one matching message per fulfilled dependency.  No
  message is lost or used twice, the payload of the consumed message becomes the data of the dependency,
  and a dependency of the request left open has no matching message.\<close>

theorem fulfill_consumes_matching:
  assumes "hm_get (pending s) i = Some xt" "fulfill_dependencies_from_mailbox i deps s = (n, s')"
  shows "\<exists>xt' used. hm_get (pending s') i = Some xt' \<and> n = length used \<and>
    mset (xt_pending_mailbox xt) = mset (xt_pending_mailbox xt') + mset (map snd used) \<and>
    xt_fulfilled_deps xt' = xt_fulfilled_deps xt @ map (\<lambda>(d, m). d\<lparr>dep_data := Some (msg_payload m)\<rparr>) used \<and>
    list_all (\<lambda>(d, m). d \<in> set deps \<and> matches_dependency m d) used \<and>
    (\<forall>d \<in> set deps. dependency_key_from d \<in> xt_fulfilled_dep_keys xt' \<or>
       (\<forall>m \<in> set (xt_pending_mailbox xt'). \<not> matches_dependency m d))"
proof -
  obtain n' xt' where f: "fold fulfill_one deps (0, xt) = (n', xt')" by force
  have "n = n'" "hm_get (pending s') i = Some xt'"
    using assms f by (auto simp: fulfill_dependencies_from_mailbox_def hm_simps)
  then show ?thesis using fold_fulfill_spec[OF f] unfolding fulfils_def by auto
qed

theorem fulfill_consumes_matching_witness:
  "\<exists>s' xt'. fulfill_dependencies_from_mailbox ''xt-1-1'' [demo_dependency]
      (sys_state (demo_sys (demo_xt\<lparr>xt_pending_mailbox := [demo_message]\<rparr>))) = (1, s') \<and>
    hm_get (pending s') ''xt-1-1'' = Some xt' \<and> xt_pending_mailbox xt' = []"
proof -
  let ?x = "demo_xt\<lparr>xt_pending_mailbox := [demo_message]\<rparr>"
  have x: "hm_get (pending (sys_state (demo_sys ?x))) ''xt-1-1'' = Some ?x"
    by (simp add: demo_sys_def demo_xt_def pending_xt_new_def)
  obtain n s' where f: "fulfill_dependencies_from_mailbox ''xt-1-1'' [demo_dependency] (sys_state (demo_sys ?x)) = (n, s')"
    by force
  have "n = 1"
    using f x demo_matches
    by (auto simp: fulfill_dependencies_from_mailbox_def fulfill_one_def demo_xt_def pending_xt_new_def)
  obtain xt' and used :: "(dependency \<times> mailbox_message) list"
    where xt': "hm_get (pending s') ''xt-1-1'' = Some xt'" and used: "n = length used"
    and m: "mset (xt_pending_mailbox ?x) = mset (xt_pending_mailbox xt') + mset (map snd used)"
    using fulfill_consumes_matching[OF x f] by blast
  have "length (xt_pending_mailbox ?x) = length (xt_pending_mailbox xt') + length used"
    using arg_cong[OF m, of size] by simp
  then have "xt_pending_mailbox xt' = []" using used \<open>n = 1\<close> by simp
  then show ?thesis using f xt' \<open>n = 1\<close> by simp
qed

text \<open>C30: a mailbox message of an XT is sent once.  Whatever the transaction outcome, the messages a
  dispatch sends have distinct keys, none of which was sent before, all come from the given outbound
  messages, and their keys are recorded, so that no later dispatch sends them again; without a send error
  every new message is sent.\<close>

theorem dispatch_sends_once:
  assumes "dispatch_outbound_mailbox C i outbound w = (r, w')"
    and "hm_get (pending (sys_state w)) i = Some xt" "outbound \<noteq> []" "mailbox_sender C \<noteq> None"
  shows "\<exists>to_send k xt'. sys_log w' = sys_log w @ map (\<lambda>m. EMailboxSend (msg_destination_chain m) m) (take k to_send) \<and>
    (r = Inr () \<longrightarrow> k \<ge> length to_send) \<and>
    hm_get (pending (sys_state w')) i = Some xt' \<and> sent_keys_ok outbound xt to_send xt'"
proof -
  obtain sender where sender: "mailbox_sender C = Some sender" using assms(4) by blast
  obtain to_send xt' where q: "fold queue_outbound outbound ([], xt) = (to_send, xt')" by force
  let ?w = "w\<lparr>sys_state := (sys_state w)\<lparr>pending := hm_insert i xt' (pending (sys_state w))\<rparr>\<rparr>"
  have run: "send_all sender to_send ?w = (r, w')"
    using assms sender q by (simp add: dispatch_outbound_mailbox_def Let_def)
  obtain k where "sys_log w' = sys_log w @ map (\<lambda>m. EMailboxSend (msg_destination_chain m) m) (take k to_send)"
    "r = Inr () \<longrightarrow> k \<ge> length to_send"
    using send_all_log[of sender to_send ?w] run by auto
  moreover have "hm_get (pending (sys_state w')) i = Some xt'"
    using send_all_state[of sender to_send ?w] run by (simp add: hm_simps)
  ultimately show ?thesis using fold_queue_spec[OF q] by blast
qed

definition demo_outbound :: out_message where
  "demo_outbound = \<lparr>out_source_chain_id = 1, out_dest_chain_id = 2, out_sender = 17, out_receiver = 18,
     out_label = ''ping'', out_data = [1, 2], out_session_id = 5\<rparr>"

theorem dispatch_sends_once_witness:
  "sys_log (snd (dispatch_outbound_mailbox (demo_coordinator\<lparr>mailbox_sender := Some (\<lambda>c m. Inr ())\<rparr>) ''xt-1-1''
      [demo_outbound, demo_outbound] (demo_sys demo_xt))) = [EMailboxSend 2 (to_mailbox_message [9] demo_outbound)]"
proof -
  let ?C = "demo_coordinator\<lparr>mailbox_sender := Some (\<lambda>c m. Inr ())\<rparr>" and ?w = "demo_sys demo_xt"
  let ?o = "[demo_outbound, demo_outbound]" and ?m = "to_mailbox_message [9] demo_outbound"
  have ok: "fst (send_all (\<lambda>c m. Inr ()) ms w) = Inr ()" for ms w
    by (induction ms arbitrary: w) (simp_all add: Let_def)
  obtain r w' where d: "dispatch_outbound_mailbox ?C ''xt-1-1'' ?o ?w = (r, w')" by force
  have x: "hm_get (pending (sys_state ?w)) ''xt-1-1'' = Some demo_xt" "xt_instance_id demo_xt = [9]"
    "xt_sent_mailbox_keys demo_xt = {}"
    by (simp_all add: demo_sys_def demo_xt_def pending_xt_new_def)
  have "r = Inr ()"
    using d x(1) ok by (auto simp: dispatch_outbound_mailbox_def split: prod.splits) (metis fst_conv)
  then obtain to_send xt' where log: "sys_log w' = map (\<lambda>m. EMailboxSend (msg_destination_chain m) m) to_send"
    and s: "sent_keys_ok ?o demo_xt to_send xt'"
    using dispatch_sends_once[OF d x(1)] by (auto simp: demo_sys_def sys_new_def)
  have "distinct to_send" "set to_send \<subseteq> {?m}" using s x by (auto simp: sent_keys_ok_def distinct_map)
  moreover have "to_send \<noteq> []"
    using d x log by (auto simp: dispatch_outbound_mailbox_def queue_outbound_pair Let_def emit_def split: prod.splits)
  ultimately have "to_send = [?m]" by (cases to_send; cases "tl to_send") auto
  then show ?thesis using log d by (simp add: to_mailbox_message_def demo_outbound_def)
qed

text \<open>C31: what one sidecar writes another reads.  The wire message built for an outbound message satisfies
  a dependency of the destination sidecar exactly when the two agree on chains, sender, receiver, session
  and label.\<close>

theorem outbound_matches_reader:
  "matches_dependency (to_mailbox_message raw m) d \<longleftrightarrow>
    out_source_chain_id m = dep_source_chain_id d \<and> out_dest_chain_id m = dep_dest_chain_id d \<and>
    out_sender m = dep_sender d \<and> out_receiver m = dep_receiver d \<and>
    out_session_id m = dep_session_id d \<and> as_bytes (out_label m) = dep_label d"
  by (auto simp: matches_dependency_def to_mailbox_message_def)

end
