(* ===== verification/Rpc_Simulation.thy ===== *)
theory Rpc_Simulation
  imports Trace_Parser Simulation_Pipeline
begin

text \<open>
  The simulator behind the pipeline, \<open>simulation/src/rpc.rs\<close>: decoding a signed
  transaction, the two traces of a \<open>debug_traceCall\<close>, the overrides computed from the
  state diff, the dependencies and messages read off the call trace, and the
  simulation with the payloads of fulfilled dependencies written into the mailbox.

  Outside the sources are the RLP decoder with signer recovery and the node that
  answers the traces.  They are the fields of \<open>rpc_backend\<close>; the answer to a trace
  request is a transport error or the decoded JSON-RPC response.
\<close>

section \<open>Data\<close>

datatype simulation_error = Rpc string | Decode string | Failed string | Timeout | SimOther string

fun show_simulation_error :: "simulation_error \<Rightarrow> string" where
  "show_simulation_error (Rpc s) = ''RPC error: '' @ s"
| "show_simulation_error (Decode s) = ''transaction decoding error: '' @ s"
| "show_simulation_error (Failed s) = ''simulation failed: '' @ s"
| "show_simulation_error Timeout = ''timeout''"
| "show_simulation_error (SimOther s) = s"

record chain_rpc_config =
  rpc_chain_id :: u64
  rpc_url :: string

record json_rpc_error =
  err_code :: int
  err_message :: string
  err_data :: "string option"

record 'a json_rpc_response =
  resp_result :: "'a option"
  resp_error :: "json_rpc_error option"

definition show_int :: "int \<Rightarrow> string" where
  "show_int n = (if n < 0 then ''-'' @ show_nat (nat (- n)) else show_nat (nat n))"

definition into_message :: "json_rpc_error \<Rightarrow> string" where
  "into_message e =
    (case err_data e of
      Some data \<Rightarrow> ''code '' @ show_int (err_code e) @ '': '' @ err_message e @ '' ('' @ data @ '')''
    | None \<Rightarrow> ''code '' @ show_int (err_code e) @ '': '' @ err_message e)"

text \<open>A signed transaction as the decoder returns it, and the call object built from it.\<close>

record tx_envelope =
  env_gas_limit :: u64
  env_to :: "address option"
  env_input :: bytes
  env_value :: u256

record transaction_call =
  call_from :: address
  call_gas :: u64
  call_to :: "address option"
  call_input :: "bytes option"
  call_value :: "u256 option"

text \<open>The prestate tracer in diff mode: balance, nonce, code and storage before and after.\<close>

record account_state =
  as_balance :: "u256 option"
  as_nonce :: "u64 option"
  as_code :: "bytes option"
  as_storage :: slot_map

record diff_mode =
  diff_pre :: "(address, account_state) hmap"
  diff_post :: "(address, account_state) hmap"

datatype pre_state_frame = DefaultFrame "(address, account_state) hmap" | DiffFrame diff_mode

record rpc_backend =
  decode_envelope :: "bytes \<Rightarrow> (string, tx_envelope) result"
  recover_signer :: "bytes \<Rightarrow> (string, address) result"
  post_call_trace :: "string \<Rightarrow> transaction_call \<Rightarrow> state_override option \<Rightarrow> (string, json json_rpc_response) result"
  post_prestate_trace ::
    "string \<Rightarrow> transaction_call \<Rightarrow> state_override option \<Rightarrow> (string, pre_state_frame json_rpc_response) result"

record rpc_simulator =
  sim_backend :: rpc_backend
  sim_chains :: "(u64, chain_rpc_config) hmap"
  sim_mailbox_address :: "address option"

definition rpc_simulator_new :: "rpc_backend \<Rightarrow> chain_rpc_config list \<Rightarrow> rpc_simulator" where
  "rpc_simulator_new B configs =
    \<lparr>sim_backend = B, sim_chains = fold (\<lambda>c. hm_insert (rpc_chain_id c) c) configs [], sim_mailbox_address = None\<rparr>"

definition with_mailbox_address :: "address \<Rightarrow> rpc_simulator \<Rightarrow> rpc_simulator" where
  "with_mailbox_address addr S = S\<lparr>sim_mailbox_address := Some addr\<rparr>"

definition simulator_rpc_url :: "externals \<Rightarrow> rpc_simulator \<Rightarrow> u64 \<Rightarrow> (simulation_error, string) result" where
  "simulator_rpc_url X S chain =
    (case hm_get (sim_chains S) chain of
      Some c \<Rightarrow> Inr (rpc_url c)
    | None \<Rightarrow> Inl (SimOther (''no RPC configured for chain '' @ show_chain_id X chain)))"

definition decode_tx :: "rpc_backend \<Rightarrow> bytes \<Rightarrow> (simulation_error, transaction_call) result" where
  "decode_tx B tx_bytes =
    (case decode_envelope B tx_bytes of
      Inl e \<Rightarrow> Inl (SimOther (''failed to decode tx: '' @ e))
    | Inr envelope \<Rightarrow>
        (case recover_signer B tx_bytes of
          Inl e \<Rightarrow> Inl (SimOther (''failed to recover signer: '' @ e))
        | Inr sender \<Rightarrow>
            Inr \<lparr>call_from = sender, call_gas = env_gas_limit envelope, call_to = env_to envelope,
                 call_input = (if env_input envelope \<noteq> [] then Some (env_input envelope) else None),
                 call_value = (if env_value envelope \<noteq> 0 then Some (env_value envelope) else None)\<rparr>))"

text \<open>\<open>trace_call\<close>, for the request function of the tracer asked for.\<close>

definition trace_call ::
  "externals \<Rightarrow> rpc_simulator
    \<Rightarrow> (string \<Rightarrow> transaction_call \<Rightarrow> state_override option \<Rightarrow> (string, 'a json_rpc_response) result)
    \<Rightarrow> u64 \<Rightarrow> transaction_call \<Rightarrow> state_override \<Rightarrow> (simulation_error, 'a) result" where
  "trace_call X S post chain tx_args overrides =
    (case simulator_rpc_url X S chain of
      Inl e \<Rightarrow> Inl e
    | Inr url \<Rightarrow>
        (case post url tx_args (if overrides \<noteq> [] then Some overrides else None) of
          Inl e \<Rightarrow> Inl (Rpc e)
        | Inr resp \<Rightarrow>
            (case resp_error resp of
              Some err \<Rightarrow> Inl (Rpc (into_message err))
            | None \<Rightarrow>
                (case resp_result resp of
                  Some r \<Rightarrow> Inr r
                | None \<Rightarrow> Inl (Rpc ''missing debug_traceCall result'')))))"

section \<open>Overrides from a state diff\<close>

text \<open>One account of the post-state, with its entry of the pre-state.\<close>

definition diff_account :: "account_state option \<Rightarrow> account_state \<Rightarrow> account_override" where
  "diff_account pre_state post_state =
    (let state_diff = as_storage post_state;
         state_diff = (case pre_state of
             None \<Rightarrow> state_diff
           | Some pre \<Rightarrow>
               fold (\<lambda>slot d. if \<not> hm_contains d slot then hm_insert slot 0 d else d)
                 (hm_keys (as_storage pre)) state_diff)
     in \<lparr>acct_balance = as_balance post_state, acct_nonce = as_nonce post_state, acct_code = as_code post_state,
         acct_state = None, acct_state_diff = (if state_diff \<noteq> [] then Some state_diff else None)\<rparr>)"

definition is_set :: "account_override \<Rightarrow> bool" where
  "is_set a \<longleftrightarrow> acct_balance a \<noteq> None \<or> acct_nonce a \<noteq> None \<or> acct_code a \<noteq> None \<or> acct_state_diff a \<noteq> None"

definition deleted_account :: account_override where
  "deleted_account = \<lparr>acct_balance = Some 0, acct_nonce = Some 0, acct_code = Some [],
     acct_state = Some [], acct_state_diff = None\<rparr>"

definition apply_post ::
  "address \<times> account_state \<Rightarrow> (address, account_state) hmap \<times> state_override
    \<Rightarrow> (address, account_state) hmap \<times> state_override" where
  "apply_post = (\<lambda>(addr, post_state) (pre, overrides).
     let account = diff_account (hm_get pre addr) post_state
     in (hm_remove addr pre, if is_set account then hm_insert addr account overrides else overrides))"

definition state_overrides_from_diff :: "diff_mode \<Rightarrow> state_override option" where
  "state_overrides_from_diff diff =
    (let (pre, overrides) = fold apply_post (diff_post diff) (diff_pre diff, []);
         overrides = fold (\<lambda>addr. hm_insert addr deleted_account) (hm_keys pre) overrides
     in if overrides = [] then None else Some overrides)"

fun trace_state_overrides :: "pre_state_frame \<Rightarrow> (simulation_error, state_override option) result" where
  "trace_state_overrides (DefaultFrame _) = Inl (SimOther ''prestate tracer returned non-diff response'')"
| "trace_state_overrides (DiffFrame diff) = Inr (state_overrides_from_diff diff)"

definition optional_trace_state_overrides ::
  "(simulation_error, pre_state_frame) result \<Rightarrow> state_override option" where
  "optional_trace_state_overrides trace_result =
    (case trace_result of
      Inr trace \<Rightarrow> (case trace_state_overrides trace of Inr overrides \<Rightarrow> overrides | Inl e \<Rightarrow> None)
    | Inl e \<Rightarrow> None)"

section \<open>Results\<close>

definition read_dependency :: "mailbox_call \<Rightarrow> dependency" where
  "read_dependency call =
    \<lparr>dep_source_chain_id = call_source_chain call, dep_dest_chain_id = call_dest_chain call,
     dep_sender = call_sender call, dep_receiver = call_receiver call, dep_label = as_bytes (call_label call),
     dep_data = None, dep_session_id = call_session_id call\<rparr>"

definition write_message :: "mailbox_call \<Rightarrow> out_message" where
  "write_message call =
    \<lparr>out_source_chain_id = call_source_chain call, out_dest_chain_id = call_dest_chain call,
     out_sender = call_sender call, out_receiver = call_receiver call, out_label = call_label call,
     out_data = call_data call, out_session_id = call_session_id call\<rparr>"

definition extract_mailbox_data ::
  "externals \<Rightarrow> mailbox_abi \<Rightarrow> rpc_simulator \<Rightarrow> json \<Rightarrow> u64 \<Rightarrow> dependency list \<times> out_message list" where
  "extract_mailbox_data X A S trace chain =
    (case sim_mailbox_address S of
      None \<Rightarrow> ([], [])
    | Some mailbox_addr \<Rightarrow>
        (let parsed = parse_call_trace X A trace mailbox_addr chain
         in (map read_dependency (filter call_reverted (st_reads parsed)), map write_message (st_writes parsed))))"

definition result_from_traces ::
  "externals \<Rightarrow> mailbox_abi \<Rightarrow> rpc_simulator \<Rightarrow> u64 \<Rightarrow> json \<Rightarrow> (simulation_error, pre_state_frame) result
    \<Rightarrow> simulation_result" where
  "result_from_traces X A S chain trace prestate_trace =
    (let top_level_ok = (case json_get trace ''error'' of
             None \<Rightarrow> True
           | Some e \<Rightarrow> (case json_as_str e of None \<Rightarrow> True | Some s \<Rightarrow> s = []));
         error_msg = str_field trace ''error'';
         (dependencies, outbound_messages) = extract_mailbox_data X A S trace chain;
         success = (top_level_ok \<and> dependencies = []);
         error_msg = (if \<not> success \<and> error_msg = None
           then Some (show_nat (length dependencies) @
             '' mailbox readMessage call(s) reverted inside an otherwise successful transaction'')
           else error_msg)
     in \<lparr>sim_success = success, sim_error = error_msg,
         sim_state_overrides = optional_trace_state_overrides prestate_trace,
         sim_dependencies = dependencies, sim_outbound_messages = outbound_messages\<rparr>)"

text \<open>The two traces of one transaction on the given overrides.\<close>

definition run_traces ::
  "externals \<Rightarrow> mailbox_abi \<Rightarrow> rpc_simulator \<Rightarrow> u64 \<Rightarrow> transaction_call \<Rightarrow> state_override \<Rightarrow> state_override
    \<Rightarrow> (simulation_error, simulation_result) result" where
  "run_traces X A S chain tx_args for_call for_prestate =
    (let trace = trace_call X S (post_call_trace (sim_backend S)) chain tx_args for_call;
         prestate_trace = trace_call X S (post_prestate_trace (sim_backend S)) chain tx_args for_prestate
     in case trace of
          Inl e \<Rightarrow> Inl e
        | Inr trace \<Rightarrow> Inr (result_from_traces X A S chain trace prestate_trace))"

definition simulate ::
  "externals \<Rightarrow> mailbox_abi \<Rightarrow> rpc_simulator \<Rightarrow> u64 \<Rightarrow> bytes \<Rightarrow> state_override
    \<Rightarrow> (simulation_error, simulation_result) result" where
  "simulate X A S chain tx overrides =
    (case decode_tx (sim_backend S) tx of
      Inl e \<Rightarrow> Inl e
    | Inr tx_args \<Rightarrow> run_traces X A S chain tx_args overrides overrides)"

definition simulate_with_mailbox ::
  "externals \<Rightarrow> mailbox_abi \<Rightarrow> rpc_simulator \<Rightarrow> u64 \<Rightarrow> bytes \<Rightarrow> state_override \<Rightarrow> dependency list
    \<Rightarrow> (simulation_error, simulation_result) result" where
  "simulate_with_mailbox X A S chain tx overrides fulfilled_deps =
    (case sim_mailbox_address S of
      None \<Rightarrow> simulate X A S chain tx overrides
    | Some mailbox_addr \<Rightarrow>
        if fulfilled_deps = [] then simulate X A S chain tx overrides
        else
          (case build_mailbox_state_overrides X chain mailbox_addr fulfilled_deps of
            None \<Rightarrow> simulate X A S chain tx overrides
          | Some mailbox_overrides \<Rightarrow>
              (case decode_tx (sim_backend S) tx of
                Inl e \<Rightarrow> Inl e
              | Inr tx_args \<Rightarrow>
                  run_traces X A S chain tx_args (merge_overrides_owned overrides mailbox_overrides)
                    (merge_overrides_owned overrides mailbox_overrides))))"

section \<open>Lemmas\<close>

lemma fold_clear_lookup:
  "hm_get (fold (\<lambda>slot d. if \<not> hm_contains d slot then hm_insert slot 0 d else d) ks d) k =
    (case hm_get d k of Some v \<Rightarrow> Some v | None \<Rightarrow> if k \<in> set ks then Some 0 else None)"
  by (induction ks arbitrary: d) (auto simp: hm_simps split: option.splits)

lemma fold_clear_empty:
  "fold (\<lambda>slot d. if \<not> hm_contains d slot then hm_insert slot 0 d else d) ks d = [] \<Longrightarrow> d = [] \<and> ks = []"
proof (rule ccontr)
  let ?f = "fold (\<lambda>slot d. if \<not> hm_contains d slot then hm_insert slot 0 d else d) ks d"
  assume e: "?f = []" and n: "\<not> (d = [] \<and> ks = [])"
  then obtain k where "hm_get d k \<noteq> None \<or> k \<in> set ks"
    by (cases d; cases ks) (auto split: if_splits)
  then have "hm_get ?f k \<noteq> None" by (auto simp: fold_clear_lookup split: option.split)
  then show False using e by simp
qed

lemma diff_account_storage:
  "account_view (diff_account pre post) below slot =
    (case hm_get (as_storage post) slot of
      Some v \<Rightarrow> v
    | None \<Rightarrow> (case pre of
        Some p \<Rightarrow> if hm_contains (as_storage p) slot then 0 else below slot
      | None \<Rightarrow> below slot))"
proof -
  let ?d = "case pre of None \<Rightarrow> as_storage post | Some p \<Rightarrow>
    fold (\<lambda>slot d. if \<not> hm_contains d slot then hm_insert slot 0 d else d) (hm_keys (as_storage p)) (as_storage post)"
  have d: "hm_get ?d slot = (case hm_get (as_storage post) slot of
      Some v \<Rightarrow> Some v
    | None \<Rightarrow> (case pre of Some p \<Rightarrow> if hm_contains (as_storage p) slot then Some 0 else None | None \<Rightarrow> None))"
    by (cases pre) (auto simp: fold_clear_lookup hm_contains_keys[symmetric] simp del: set_map split: option.split)
  have "account_view (diff_account pre post) below slot =
      (case hm_get ?d slot of None \<Rightarrow> below slot | Some v \<Rightarrow> v)"
    by (simp add: diff_account_def account_view_def Let_def)
  then show ?thesis unfolding d by (simp split: option.split)
qed

lemma unset_account_view: "\<not> is_set (diff_account pre post) \<Longrightarrow> account_view (diff_account pre post) below = below"
  by (auto simp: is_set_def diff_account_def account_view_def Let_def fun_eq_iff)

lemma fold_apply_post:
  "hm_wf post \<Longrightarrow> (\<And>b. hm_contains post b \<Longrightarrow> hm_get ov b = None) \<Longrightarrow>
    hm_get (fst (fold apply_post post (pre, ov))) a = (if hm_contains post a then None else hm_get pre a) \<and>
    hm_get (snd (fold apply_post post (pre, ov))) a =
      (case hm_get post a of
        None \<Rightarrow> hm_get ov a
      | Some ps \<Rightarrow> let acct = diff_account (hm_get pre a) ps in if is_set acct then Some acct else None)"
proof (induction post arbitrary: pre ov)
  case (Cons p post)
  obtain b ps where p: "p = (b, ps)" by force
  let ?acct = "diff_account (hm_get pre b) ps"
  let ?ov = "if is_set ?acct then hm_insert b ?acct ov else ov"
  have st: "fold apply_post (p # post) (pre, ov) = fold apply_post post (hm_remove b pre, ?ov)"
    by (simp add: p apply_post_def Let_def)
  have wf: "hm_wf post" "hm_get post b = None" using Cons.prems(1) p by auto
  have fresh: "hm_get ?ov c = None" if "hm_contains post c" for c
    using that wf(2) Cons.prems(2)[of c] p by (auto simp: hm_contains_iff hm_simps)
  have b: "hm_get ov b = None" using Cons.prems(2)[of b] p by (simp add: hm_contains_iff)
  show ?case
    unfolding st using Cons.IH[OF wf(1) fresh, of "hm_remove b pre"] wf p b
    by (auto simp: hm_contains_iff hm_simps Let_def split: option.splits if_splits)
qed (simp add: hm_contains_iff)

lemma fold_deleted_lookup:
  "hm_get (fold (\<lambda>addr. hm_insert addr deleted_account) ks ov) a = (if a \<in> set ks then Some deleted_account else hm_get ov a)"
  by (induction ks arbitrary: ov) (auto simp: hm_simps)

lemma state_overrides_lookup:
  assumes "hm_wf (diff_post d)"
  shows "hm_get (case state_overrides_from_diff d of None \<Rightarrow> [] | Some so \<Rightarrow> so) a =
    (case hm_get (diff_post d) a of
      Some ps \<Rightarrow> let acct = diff_account (hm_get (diff_pre d) a) ps in if is_set acct then Some acct else None
    | None \<Rightarrow> if hm_contains (diff_pre d) a then Some deleted_account else None)"
proof -
  obtain pre ov where f: "fold apply_post (diff_post d) (diff_pre d, []) = (pre, ov)" by force
  note lk = fold_apply_post[OF assms, of "[]" "diff_pre d" a, unfolded f]
  have "(case state_overrides_from_diff d of None \<Rightarrow> [] | Some so \<Rightarrow> so) =
      fold (\<lambda>addr. hm_insert addr deleted_account) (hm_keys pre) ov"
    by (simp add: state_overrides_from_diff_def f Let_def)
  then show ?thesis
    using lk hm_contains_keys[of pre a] by (auto simp: fold_deleted_lookup hm_contains_iff Let_def split: option.splits)
qed

text \<open>The node's view of an account field: the override where it is set, the chain below it elsewhere.\<close>

definition field_view :: "(account_override \<Rightarrow> 'a option) \<Rightarrow> state_override \<Rightarrow> (address \<Rightarrow> 'a) \<Rightarrow> address \<Rightarrow> 'a" where
  "field_view field so below a =
    (case hm_get so a of None \<Rightarrow> below a | Some acct \<Rightarrow> (case field acct of None \<Rightarrow> below a | Some v \<Rightarrow> v))"

lemma diff_account_fields [simp]:
  "acct_balance (diff_account pre post) = as_balance post" "acct_nonce (diff_account pre post) = as_nonce post"
  "acct_code (diff_account pre post) = as_code post" "acct_state (diff_account pre post) = None"
  by (simp_all add: diff_account_def Let_def)

lemma diff_field_view:
  assumes "hm_wf (diff_post d)" "\<And>pre post. field (diff_account pre post) = g post"
    and "\<And>acct. \<not> is_set acct \<Longrightarrow> field acct = None" "field deleted_account = Some z"
  shows "field_view field (case state_overrides_from_diff d of None \<Rightarrow> [] | Some so \<Rightarrow> so) below a =
    (case hm_get (diff_post d) a of
      Some ps \<Rightarrow> (case g ps of None \<Rightarrow> below a | Some v \<Rightarrow> v)
    | None \<Rightarrow> if hm_contains (diff_pre d) a then z else below a)"
proof (cases "hm_get (diff_post d) a")
  case (Some ps)
  have "\<not> is_set (diff_account (hm_get (diff_pre d) a) ps) \<Longrightarrow> g ps = None"
    using assms(2)[of "hm_get (diff_pre d) a" ps] assms(3) by metis
  then show ?thesis
    unfolding field_view_def state_overrides_lookup[OF assms(1)] by (simp add: Some assms(2) Let_def)
qed (simp add: field_view_def state_overrides_lookup[OF assms(1)] assms(4))

lemma run_traces_Inr:
  assumes "run_traces X A S chain args ov ov' = Inr r"
  obtains trace pre where "trace_call X S (post_call_trace (sim_backend S)) chain args ov = Inr trace"
    "r = result_from_traces X A S chain trace pre"
  using assms by (auto simp: run_traces_def Let_def split: sum.splits)

lemma deleted_view: "account_view deleted_account below slot = 0"
  by (simp add: account_view_def deleted_account_def)

text \<open>The overrides of a call with fulfilled dependencies, and a trace that fails nowhere it matters.\<close>

definition mailbox_view :: "externals \<Rightarrow> u64 \<Rightarrow> address \<Rightarrow> dependency list \<Rightarrow> state_override \<Rightarrow> state_override" where
  "mailbox_view X chain mb deps ov =
    (case (if deps = [] then None else build_mailbox_state_overrides X chain mb deps) of
      None \<Rightarrow> ov
    | Some m \<Rightarrow> merge_overrides_owned ov m)"

definition clean_trace :: "externals \<Rightarrow> mailbox_abi \<Rightarrow> address \<Rightarrow> u64 \<Rightarrow> json \<Rightarrow> bool" where
  "clean_trace X A mb chain trace \<longleftrightarrow> (\<forall>e. str_field trace ''error'' = Some e \<longrightarrow> e = []) \<and>
     list_all (\<lambda>c. \<not> call_reverted c) (st_reads (parse_call_trace X A trace mb chain))"

lemma simulate_with_mailbox_trace:
  assumes "simulate_with_mailbox X A S chain tx ov deps = Inr r" "sim_mailbox_address S = Some mb"
  obtains args trace pre where "decode_tx (sim_backend S) tx = Inr args"
    "trace_call X S (post_call_trace (sim_backend S)) chain args (mailbox_view X chain mb deps ov) = Inr trace"
    "r = result_from_traces X A S chain trace pre"
proof -
  obtain args where "decode_tx (sim_backend S) tx = Inr args"
    "run_traces X A S chain args (mailbox_view X chain mb deps ov) (mailbox_view X chain mb deps ov) = Inr r"
    using assms
    by (auto simp: simulate_with_mailbox_def simulate_def mailbox_view_def split: sum.splits option.splits if_splits)
  then show ?thesis using run_traces_Inr that by blast
qed

lemma result_from_traces_spec:
  assumes "sim_mailbox_address S = Some mb"
  shows "sim_dependencies (result_from_traces X A S chain trace pre) =
      map read_dependency (filter call_reverted (st_reads (parse_call_trace X A trace mb chain)))"
    and "sim_success (result_from_traces X A S chain trace pre) \<longleftrightarrow> clean_trace X A mb chain trace"
proof -
  let ?reads = "st_reads (parse_call_trace X A trace mb chain)"
  obtain reverted outs where ex: "extract_mailbox_data X A S trace chain = (reverted, outs)" by force
  then have deps: "reverted = map read_dependency (filter call_reverted ?reads)"
    using assms by (simp add: extract_mailbox_data_def Let_def)
  have res: "sim_dependencies (result_from_traces X A S chain trace pre) = reverted"
    "sim_success (result_from_traces X A S chain trace pre) \<longleftrightarrow>
      (\<forall>e. str_field trace ''error'' = Some e \<longrightarrow> e = []) \<and> reverted = []"
    by (auto simp: result_from_traces_def ex Let_def str_field_def split: option.splits)
  have "reverted = [] \<longleftrightarrow> list_all (\<lambda>c. \<not> call_reverted c) ?reads"
    by (auto simp: deps filter_empty_conv list_all_iff)
  then show "sim_success (result_from_traces X A S chain trace pre) \<longleftrightarrow> clean_trace X A mb chain trace"
    using res(2) by (simp add: clean_trace_def)
  show "sim_dependencies (result_from_traces X A S chain trace pre) = map read_dependency (filter call_reverted ?reads)"
    using res(1) deps by simp
qed

section \<open>Properties\<close>

text \<open>C17: replaying a transaction's state diff.  A node that applies the overrides built from the diff
  reads, in every slot, the value after the transaction: the new value where the diff has one, zero in
  slots the transaction cleared and in every slot of an account it destroyed, and what was there before
  everywhere else; balances, nonces and code likewise.\<close>

theorem diff_overrides_replay:
  assumes "hm_wf (diff_post d)" "so = (case state_overrides_from_diff d of None \<Rightarrow> [] | Some so \<Rightarrow> so)"
  shows "storage_view so below a slot =
      (case hm_get (diff_post d) a of
        Some ps \<Rightarrow>
          (case hm_get (as_storage ps) slot of
            Some v \<Rightarrow> v
          | None \<Rightarrow>
              if (\<exists>p. hm_get (diff_pre d) a = Some p \<and> hm_contains (as_storage p) slot) then 0 else below a slot)
      | None \<Rightarrow> if hm_contains (diff_pre d) a then 0 else below a slot) \<and>
    field_view acct_balance so balances a =
      (case hm_get (diff_post d) a of
        Some ps \<Rightarrow> (case as_balance ps of None \<Rightarrow> balances a | Some v \<Rightarrow> v)
      | None \<Rightarrow> if hm_contains (diff_pre d) a then 0 else balances a) \<and>
    field_view acct_nonce so nonces a =
      (case hm_get (diff_post d) a of
        Some ps \<Rightarrow> (case as_nonce ps of None \<Rightarrow> nonces a | Some v \<Rightarrow> v)
      | None \<Rightarrow> if hm_contains (diff_pre d) a then 0 else nonces a) \<and>
    field_view acct_code so codes a =
      (case hm_get (diff_post d) a of
        Some ps \<Rightarrow> (case as_code ps of None \<Rightarrow> codes a | Some v \<Rightarrow> v)
      | None \<Rightarrow> if hm_contains (diff_pre d) a then [] else codes a)"
proof -
  have "storage_view so below a slot =
      (case hm_get (diff_post d) a of
        Some ps \<Rightarrow> account_view (diff_account (hm_get (diff_pre d) a) ps) (below a) slot
      | None \<Rightarrow> if hm_contains (diff_pre d) a then 0 else below a slot)"
    unfolding storage_view_def assms(2) state_overrides_lookup[OF assms(1)]
    by (auto simp: Let_def unset_account_view deleted_view split: option.split)
  then have "storage_view so below a slot =
      (case hm_get (diff_post d) a of
        Some ps \<Rightarrow>
          (case hm_get (as_storage ps) slot of
            Some v \<Rightarrow> v
          | None \<Rightarrow>
              if (\<exists>p. hm_get (diff_pre d) a = Some p \<and> hm_contains (as_storage p) slot) then 0 else below a slot)
      | None \<Rightarrow> if hm_contains (diff_pre d) a then 0 else below a slot)"
    by (cases "hm_get (diff_post d) a") (auto simp: diff_account_storage split: option.split)
  moreover note diff_field_view[OF assms(1), of acct_balance as_balance 0 balances a]
    diff_field_view[OF assms(1), of acct_nonce as_nonce 0 nonces a]
    diff_field_view[OF assms(1), of acct_code as_code "[]" codes a]
  ultimately show ?thesis
    unfolding assms(2)[symmetric] by (simp add: is_set_def deleted_account_def del: split_paired_Ex)
qed

definition demo_diff :: diff_mode where
  "demo_diff = \<lparr>diff_pre = [(1, \<lparr>as_balance = None, as_nonce = None, as_code = None, as_storage = [(4, 9), (5, 8)]\<rparr>)],
     diff_post = [(1, \<lparr>as_balance = Some 3, as_nonce = None, as_code = None, as_storage = [(5, 7)]\<rparr>)]\<rparr>"

theorem diff_overrides_replay_witness:
  "\<exists>so. state_overrides_from_diff demo_diff = Some so \<and>
    storage_view so (\<lambda>a s. 100) 1 4 = 0 \<and> storage_view so (\<lambda>a s. 100) 1 5 = 7 \<and> storage_view so (\<lambda>a s. 100) 1 6 = 100"
proof -
  let ?so = "case state_overrides_from_diff demo_diff of None \<Rightarrow> [] | Some so \<Rightarrow> so"
  have wf: "hm_wf (diff_post demo_diff)" by (simp add: demo_diff_def)
  have "storage_view ?so (\<lambda>a s. 100) 1 4 = 0" "storage_view ?so (\<lambda>a s. 100) 1 5 = 7"
    "storage_view ?so (\<lambda>a s. 100) 1 6 = 100"
    using diff_overrides_replay[OF wf refl, of "\<lambda>a s. 100" 1 4] diff_overrides_replay[OF wf refl, of "\<lambda>a s. 100" 1 5]
      diff_overrides_replay[OF wf refl, of "\<lambda>a s. 100" 1 6]
    by (simp_all add: demo_diff_def hm_simps)
  moreover have "state_overrides_from_diff demo_diff \<noteq> None" by code_simp
  ultimately show ?thesis by auto
qed

text \<open>C16: what a successful simulation means.  The simulator reports success exactly when the traced
  call did not fail at the top and no mailbox read in the whole call tree reverted, also not one whose
  failure an outer call swallowed; the reported dependencies are those reverted reads, all addressed to
  the simulated chain.\<close>

theorem simulation_success_means:
  assumes "simulate_with_mailbox X A S chain tx ov deps = Inr r" "sim_mailbox_address S = Some mb"
  shows "\<exists>args trace. decode_tx (sim_backend S) tx = Inr args \<and>
    trace_call X S (post_call_trace (sim_backend S)) chain args (mailbox_view X chain mb deps ov) = Inr trace \<and>
    (sim_success r \<longleftrightarrow> clean_trace X A mb chain trace) \<and>
    sim_dependencies r =
      map read_dependency (filter call_reverted (st_reads (parse_call_trace X A trace mb chain))) \<and>
    list_all (\<lambda>d. dep_dest_chain_id d = chain \<and> dep_data d = None) (sim_dependencies r)"
proof -
  obtain args trace pre where t: "decode_tx (sim_backend S) tx = Inr args"
    "trace_call X S (post_call_trace (sim_backend S)) chain args (mailbox_view X chain mb deps ov) = Inr trace"
    and r: "r = result_from_traces X A S chain trace pre"
    using simulate_with_mailbox_trace[OF assms] by blast
  have "list_all (\<lambda>d. dep_dest_chain_id d = chain \<and> dep_data d = None) (sim_dependencies r)"
    using parse_call_trace_local[of chain X A trace mb]
    by (auto simp: r result_from_traces_spec[OF assms(2)] read_dependency_def list_all_iff)
  then show ?thesis using t r result_from_traces_spec[OF assms(2)] by blast
qed

definition demo_backend :: "json \<Rightarrow> rpc_backend" where
  "demo_backend trace = \<lparr>decode_envelope = \<lambda>b. Inr \<lparr>env_gas_limit = 21000, env_to = Some 5, env_input = b, env_value = 0\<rparr>,
     recover_signer = \<lambda>b. Inr 7,
     post_call_trace = \<lambda>u c ov. Inr \<lparr>resp_result = Some trace, resp_error = None\<rparr>,
     post_prestate_trace = \<lambda>u c ov. Inl ''no such tracer''\<rparr>"

definition demo_abi :: mailbox_abi where
  "demo_abi = \<lparr>parse_address = \<lambda>s. None, write_selector = [1, 2, 3, 4], read_selector = [5, 6, 7, 8],
     decode_write_call = \<lambda>b. None, decode_read_call = \<lambda>b. None\<rparr>"

definition demo_simulator :: rpc_simulator where
  "demo_simulator = with_mailbox_address 5 (rpc_simulator_new
     (demo_backend (JObject [(''error'', JString ''execution reverted'')])) [\<lparr>rpc_chain_id = 1, rpc_url = ''http://node''\<rparr>])"

theorem simulation_success_means_witness:
  "\<exists>r. simulate_with_mailbox toy_externals demo_abi demo_simulator 1 [1] [] [] = Inr r \<and> \<not> sim_success r"
proof -
  let ?t = "JObject [(''error'', JString ''execution reverted'')]"
  obtain r where r: "simulate_with_mailbox toy_externals demo_abi demo_simulator 1 [1] [] [] = Inr r"
    by (simp add: simulate_with_mailbox_def simulate_def decode_tx_def demo_simulator_def with_mailbox_address_def rpc_simulator_new_def
        demo_backend_def run_traces_def trace_call_def simulator_rpc_url_def)
  have mb: "sim_mailbox_address demo_simulator = Some 5" by (simp add: demo_simulator_def with_mailbox_address_def)
  obtain args trace where t: "decode_tx (sim_backend demo_simulator) [1] = Inr args"
    "trace_call toy_externals demo_simulator (post_call_trace (sim_backend demo_simulator)) 1 args
      (mailbox_view toy_externals 1 5 [] []) = Inr trace"
    "sim_success r \<longleftrightarrow> clean_trace toy_externals demo_abi 5 1 trace"
    using simulation_success_means[OF r mb] by blast
  have "trace = ?t"
    using t(2) by (simp add: trace_call_def simulator_rpc_url_def demo_simulator_def with_mailbox_address_def
        rpc_simulator_new_def demo_backend_def)
  then have "\<not> sim_success r" using t(3) by (simp add: clean_trace_def str_field_def)
  then show ?thesis using r by blast
qed

section \<open>The simulator of the pipeline\<close>

text \<open>The simulator as the coordinator holds it, with errors printed.\<close>

definition rpc_simulate ::
  "externals \<Rightarrow> mailbox_abi \<Rightarrow> rpc_simulator \<Rightarrow> u64 \<Rightarrow> bytes \<Rightarrow> state_override \<Rightarrow> dependency list
    \<Rightarrow> (string, simulation_result) result" where
  "rpc_simulate X A S chain tx ov deps =
    (case simulate_with_mailbox X A S chain tx ov deps of Inl e \<Rightarrow> Inl (show_simulation_error e) | Inr r \<Rightarrow> Inr r)"

end
