(* ===== verification/Adapters.thy ===== *)
theory Adapters
  imports Builder_Control Rpc_Simulation
begin

text \<open>
  The adapters through which the coordinator reaches the builder: the JSON-RPC client
  \<open>coordinator/coordinator/src/builder_client.rs\<close>, and the signer of \<open>putInbox\<close>
  transactions \<open>mailbox/src/put_inbox.rs\<close> with its call encoding \<open>mailbox/src/abi.rs\<close>.
  They implement the records \<open>xt_builder_client\<close> and \<open>put_inbox_builder\<close> that the
  coordinator holds.  HTTP, key handling, ABI encoding and transaction filling are the
  fields of the two library records.
\<close>

section \<open>The builder client\<close>

record xt_order_key =
  order_period_id :: u64
  order_sequence_number :: u64

datatype builder_params =
    SubmitXtRequest instance_id xt_order_key "bytes list"
  | ReleaseXtRequest instance_id "bytes list"
  | AbortXtRequest instance_id

record builder_rpc_request =
  rq_jsonrpc :: string
  rq_id :: u64
  rq_method :: string
  rq_params :: builder_params

text \<open>The answer to a POST: the check of the status, and the parsed body with its error object.\<close>

record builder_answer =
  ans_error_for_status :: "(string, unit) result"
  ans_json :: "(string, (int \<times> string) option) result"

type_synonym builder_http = "string \<Rightarrow> builder_rpc_request \<Rightarrow> (string, builder_answer) result"

record http_xt_builder_client =
  hx_endpoint :: string
  hx_next_id :: u64
  hx_sent :: "builder_rpc_request list"

definition http_xt_builder_client_new ::
  "(string, unit) result \<Rightarrow> string \<Rightarrow> (coordinator_error, http_xt_builder_client) result" where
  "http_xt_builder_client_new client_build endpoint =
    (case client_build of
       Inl e \<Rightarrow> Inl (BuilderControl e)
     | Inr _ \<Rightarrow> Inr \<lparr>hx_endpoint = endpoint, hx_next_id = 1, hx_sent = []\<rparr>)"

definition rpc_outcome :: "string \<Rightarrow> (string, builder_answer) result \<Rightarrow> (coordinator_error, unit) result" where
  "rpc_outcome rpc_method sent =
    (case sent of
       Inl e \<Rightarrow> Inl (BuilderControl e)
     | Inr response \<Rightarrow>
    (case ans_error_for_status response of
       Inl e \<Rightarrow> Inl (BuilderControl e)
     | Inr _ \<Rightarrow>
    (case ans_json response of
       Inl e \<Rightarrow> Inl (BuilderControl e)
     | Inr (Some (code, message)) \<Rightarrow>
         Inl (BuilderControl (rpc_method @ '' failed with code '' @ show_int code @ '': '' @ message))
     | Inr None \<Rightarrow> Inr ())))"

definition call_builder ::
  "builder_http \<Rightarrow> string \<Rightarrow> builder_params \<Rightarrow> http_xt_builder_client
    \<Rightarrow> (coordinator_error, unit) result \<times> http_xt_builder_client" where
  "call_builder http rpc_method params b =
    (let request = \<lparr>rq_jsonrpc = ''2.0'', rq_id = hx_next_id b, rq_method = rpc_method, rq_params = params\<rparr>;
         b = b\<lparr>hx_next_id := hx_next_id b + 1, hx_sent := hx_sent b @ [request]\<rparr>
     in (rpc_outcome rpc_method (http (hx_endpoint b) request), b))"

definition http_submit_locked_xt ::
  "builder_http \<Rightarrow> instance_id \<Rightarrow> u64 \<Rightarrow> u64 \<Rightarrow> bytes list \<Rightarrow> http_xt_builder_client
    \<Rightarrow> (coordinator_error, unit) result \<times> http_xt_builder_client" where
  "http_submit_locked_xt http i period_id sequence_number transactions b =
    call_builder http ''ethera_submitXt''
      (SubmitXtRequest i \<lparr>order_period_id = period_id, order_sequence_number = sequence_number\<rparr> transactions) b"

definition http_release_xt ::
  "builder_http \<Rightarrow> instance_id \<Rightarrow> bytes list \<Rightarrow> http_xt_builder_client
    \<Rightarrow> (coordinator_error, unit) result \<times> http_xt_builder_client" where
  "http_release_xt http i put_inbox_transactions b =
    call_builder http ''ethera_releaseXt'' (ReleaseXtRequest i put_inbox_transactions) b"

definition http_abort_xt ::
  "builder_http \<Rightarrow> instance_id \<Rightarrow> http_xt_builder_client
    \<Rightarrow> (coordinator_error, unit) result \<times> http_xt_builder_client" where
  "http_abort_xt http i b = call_builder http ''ethera_abortXt'' (AbortXtRequest i) b"

text \<open>The client as the coordinator holds it: the answers of its three calls.\<close>

definition as_builder_client :: "builder_http \<Rightarrow> http_xt_builder_client \<Rightarrow> xt_builder_client" where
  "as_builder_client http b =
    \<lparr>submit_locked_xt = \<lambda>i p q txs. fst (http_submit_locked_xt http i p q txs b),
     release_xt = \<lambda>i txs. fst (http_release_xt http i txs b),
     abort_xt = \<lambda>i. fst (http_abort_xt http i b)\<rparr>"

section \<open>The putInbox signer\<close>

record put_inbox_call =
  pi_chain_message_sender :: u256
  pi_sender :: address
  pi_receiver :: address
  pi_session_id :: u256
  pi_label :: string
  pi_data :: bytes

record put_inbox_tx =
  pt_from :: address
  pt_to :: address
  pt_chain_id :: u64
  pt_nonce :: u64
  pt_gas_limit :: u64
  pt_input :: bytes

record put_inbox_lib =
  lib_parse_address :: "string \<Rightarrow> (string, address) result"
  lib_parse_key :: "string \<Rightarrow> (string, address) result"
  lib_parse_url :: "string \<Rightarrow> (string, string) result"
  lib_pending_count :: "string \<Rightarrow> address \<Rightarrow> (string, u64) result"
  lib_utf8_lossy :: "bytes \<Rightarrow> string"
  lib_abi_encode :: "put_inbox_call \<Rightarrow> bytes"
  lib_fill :: "string \<Rightarrow> put_inbox_tx \<Rightarrow> (string, (string, bytes) result) result"

definition put_inbox_gas_limit :: u64 where
  "put_inbox_gas_limit = 2000000"

record put_inbox_tx_builder =
  pb_chain_id :: u64
  pb_rpc_url :: string
  pb_mailbox_address :: address
  pb_signer_address :: address

definition put_inbox_tx_builder_new ::
  "put_inbox_lib \<Rightarrow> u64 \<Rightarrow> string \<Rightarrow> string \<Rightarrow> string \<Rightarrow> (coordinator_error, put_inbox_tx_builder) result" where
  "put_inbox_tx_builder_new L cid url mailbox_address coordinator_key =
    (case lib_parse_address L mailbox_address of
       Inl e \<Rightarrow> Inl (Other (''invalid mailbox address: '' @ e))
     | Inr mailbox \<Rightarrow>
    (let key = (if take 2 coordinator_key = ''0x'' then coordinator_key else ''0x'' @ coordinator_key) in
     case lib_parse_key L key of
       Inl e \<Rightarrow> Inl (Other (''invalid coordinator key: '' @ e))
     | Inr signer_address \<Rightarrow>
    (case lib_parse_url L url of
       Inl e \<Rightarrow> Inl (Other (''invalid builder rpc url: '' @ e))
     | Inr u \<Rightarrow>
         Inr \<lparr>pb_chain_id = cid, pb_rpc_url = u, pb_mailbox_address = mailbox, pb_signer_address = signer_address\<rparr>)))"

definition encode_put_inbox ::
  "put_inbox_lib \<Rightarrow> u64 \<Rightarrow> address \<Rightarrow> address \<Rightarrow> u256 \<Rightarrow> bytes \<Rightarrow> bytes \<Rightarrow> (mailbox_error, bytes) result" where
  "encode_put_inbox L source_chain_id sender receiver session_id label data =
    Inr (lib_abi_encode L \<lparr>pi_chain_message_sender = ucast source_chain_id, pi_sender = sender, pi_receiver = receiver,
      pi_session_id = session_id, pi_label = lib_utf8_lossy L label, pi_data = data\<rparr>)"

definition put_inbox_nonce_floor :: "put_inbox_lib \<Rightarrow> put_inbox_tx_builder \<Rightarrow> (coordinator_error, u64) result" where
  "put_inbox_nonce_floor L b =
    (case lib_pending_count L (pb_rpc_url b) (pb_signer_address b) of
       Inl e \<Rightarrow> Inl (Nonce (''get pending nonce: '' @ e))
     | Inr n \<Rightarrow> Inr n)"

definition build_put_inbox_tx ::
  "put_inbox_lib \<Rightarrow> put_inbox_tx_builder \<Rightarrow> dependency \<Rightarrow> u64 \<Rightarrow> (coordinator_error, bytes) result" where
  "build_put_inbox_tx L b dep nonce =
    (let data = (case dep_data dep of None \<Rightarrow> [] | Some d \<Rightarrow> d) in
     case encode_put_inbox L (dep_source_chain_id dep) (dep_sender dep) (dep_receiver dep) (dep_session_id dep)
            (dep_label dep) data of
       Inl e \<Rightarrow> Inl (Mailbox (''encode putInbox calldata: '' @ show_mailbox_error e))
     | Inr calldata \<Rightarrow>
         (let tx = \<lparr>pt_from = pb_signer_address b, pt_to = pb_mailbox_address b, pt_chain_id = pb_chain_id b,
                pt_nonce = nonce, pt_gas_limit = put_inbox_gas_limit, pt_input = calldata\<rparr>
          in case lib_fill L (pb_rpc_url b) tx of
               Inl e \<Rightarrow> Inl (Other (''fill putInbox tx: '' @ e))
             | Inr (Inl e) \<Rightarrow> Inl (Other (''fill putInbox tx returned unsigned transaction: '' @ e))
             | Inr (Inr envelope) \<Rightarrow> Inr envelope))"

definition as_put_inbox_builder :: "put_inbox_lib \<Rightarrow> put_inbox_tx_builder \<Rightarrow> put_inbox_builder" where
  "as_put_inbox_builder L b =
    \<lparr>signer_nonce_floor = put_inbox_nonce_floor L b,
     build_put_inbox_tx_with_nonce = build_put_inbox_tx L b\<rparr>"

section \<open>Lemmas\<close>

text \<open>A builder call succeeds exactly when the request was answered with a good status and a body
  without an error object; every failure is a builder-control error.\<close>

lemma rpc_outcome_ok:
  "rpc_outcome m sent = Inr () \<longleftrightarrow>
    (\<exists>a. sent = Inr a \<and> ans_error_for_status a = Inr () \<and> ans_json a = Inr None)"
  by (auto simp: rpc_outcome_def split: sum.splits option.splits)

lemma rpc_outcome_error: "rpc_outcome m sent = Inl e \<Longrightarrow> \<exists>s. e = BuilderControl s"
  by (auto simp: rpc_outcome_def split: sum.splits option.splits)

text \<open>Request ids count up from 1.\<close>

lemma call_builder_ids:
  assumes "map rq_id (hx_sent b) = map (\<lambda>k. word_of_nat (Suc k)) [0..<length (hx_sent b)]"
    and "hx_next_id b = word_of_nat (Suc (length (hx_sent b)))"
  shows "let b' = snd (call_builder http m p b) in
    map rq_id (hx_sent b') = map (\<lambda>k. word_of_nat (Suc k)) [0..<length (hx_sent b')] \<and>
    hx_next_id b' = word_of_nat (Suc (length (hx_sent b')))"
  using assms by (simp add: call_builder_def Let_def)

text \<open>A dependency is signed as a call of the mailbox contract of this chain with the given nonce,
  which carries the dependency's key and data.\<close>

lemma signed_put_inbox:
  assumes "build_put_inbox_tx L b dep nonce = Inr envelope"
  shows "\<exists>tx. lib_fill L (pb_rpc_url b) tx = Inr (Inr envelope) \<and> pt_nonce tx = nonce \<and>
    pt_to tx = pb_mailbox_address b \<and> pt_from tx = pb_signer_address b \<and> pt_chain_id tx = pb_chain_id b \<and>
    pt_input tx = lib_abi_encode L \<lparr>pi_chain_message_sender = ucast (dep_source_chain_id dep),
      pi_sender = dep_sender dep, pi_receiver = dep_receiver dep, pi_session_id = dep_session_id dep,
      pi_label = lib_utf8_lossy L (dep_label dep), pi_data = (case dep_data dep of None \<Rightarrow> [] | Some d \<Rightarrow> d)\<rparr>"
  using assms by (auto simp: build_put_inbox_tx_def encode_put_inbox_def Let_def split: sum.splits intro!: exI)

end
