(* ===== verification/Policy_Stream.thy ===== *)
theory Policy_Stream
  imports Permissions
begin

text \<open>
  The websocket client \<open>net/ws/src/lib.rs\<close> and its use by the policy stream
  \<open>permissions/src/stream.rs\<close>.  The trait \<open>MessageHandler\<close> is the record
  \<open>message_handler\<close> of its methods; the locale \<open>liveness_handler\<close> states what a handler
  that tracks liveness promises, and the permission engine is shown to be one.

  A connection attempt is given by the outcome of the handshake and by the reads up to
  the end of the stream, each with the time it is handled.  The client's loop never ends;
  \<open>ws_run\<close> runs it over any finite number of attempts.
\<close>

section \<open>Model\<close>

record 'h message_handler =
  mh_on_message :: "nat \<Rightarrow> string \<Rightarrow> 'h \<Rightarrow> 'h"
  mh_on_connected :: "'h \<Rightarrow> 'h"
  mh_on_disconnected :: "'h \<Rightarrow> 'h"
  mh_resume_query :: "'h \<Rightarrow> string option"

record ws_client =
  ws_base_url :: string
  ws_auth_token :: "string option"
  ws_reconnect_backoff :: u64
  ws_read_idle_timeout :: u64

datatype ws_message = Text string | Binary bytes | Ping | Pong | Close | RawFrame

datatype ws_read = Received nat ws_message | ReadError string | StreamEnd | IdleTimeout

record ws_request =
  wq_url :: string
  wq_authorization :: "string option"

text \<open>Parsing the URL, checking a header value, the handshake and UTF-8 validation are library calls.\<close>

record ws_library =
  into_client_request :: "string \<Rightarrow> (string, string) result"
  header_value :: "string \<Rightarrow> string option"
  from_utf8 :: "bytes \<Rightarrow> string option"

record ws_attempt =
  wa_connect :: "ws_request \<Rightarrow> (string, unit) result"
  wa_reads :: "ws_read list"

definition connect_url :: "ws_client \<Rightarrow> string option \<Rightarrow> string" where
  "connect_url c resume =
    (case resume of
       Some query \<Rightarrow>
         let separator = (if CHR ''?'' \<in> set (ws_base_url c) then ''&'' else ''?'')
         in ws_base_url c @ separator @ query
     | None \<Rightarrow> ws_base_url c)"

definition build_request :: "ws_library \<Rightarrow> ws_client \<Rightarrow> string \<Rightarrow> (string, ws_request) result" where
  "build_request L c url =
    (case into_client_request L url of
       Inl e \<Rightarrow> Inl e
     | Inr u \<Rightarrow>
         Inr \<lparr>wq_url = u, wq_authorization =
           (case ws_auth_token c of
              None \<Rightarrow> None
            | Some token \<Rightarrow> header_value L (''Bearer '' @ token))\<rparr>)"

fun read_loop :: "ws_library \<Rightarrow> 'h message_handler \<Rightarrow> ws_read list \<Rightarrow> 'h \<Rightarrow> (string, unit) result \<times> 'h" where
  "read_loop L H [] h = (Inr (), h)"
| "read_loop L H (Received now (Text txt) # rs) h = read_loop L H rs (mh_on_message H now txt h)"
| "read_loop L H (Received now (Binary bs) # rs) h =
    read_loop L H rs (case from_utf8 L bs of Some txt \<Rightarrow> mh_on_message H now txt h | None \<Rightarrow> h)"
| "read_loop L H (Received now Ping # rs) h = read_loop L H rs h"
| "read_loop L H (Received now Pong # rs) h = read_loop L H rs h"
| "read_loop L H (Received now Close # rs) h = (Inr (), h)"
| "read_loop L H (Received now RawFrame # rs) h = read_loop L H rs h"
| "read_loop L H (ReadError e # rs) h = (Inl e, h)"
| "read_loop L H (StreamEnd # rs) h = (Inr (), h)"
| "read_loop L H (IdleTimeout # rs) h = (Inr (), h)"

definition stream_once ::
  "ws_library \<Rightarrow> ws_client \<Rightarrow> 'h message_handler \<Rightarrow> ws_attempt \<Rightarrow> 'h \<Rightarrow> (string, unit) result \<times> 'h" where
  "stream_once L c H a h =
    (let url = connect_url c (mh_resume_query H h) in
     case build_request L c url of
       Inl e \<Rightarrow> (Inl e, h)
     | Inr request \<Rightarrow>
         (case wa_connect a request of
            Inl e \<Rightarrow> (Inl e, h)
          | Inr _ \<Rightarrow> read_loop L H (wa_reads a) (mh_on_connected H h)))"

fun ws_run :: "ws_library \<Rightarrow> ws_client \<Rightarrow> 'h message_handler \<Rightarrow> ws_attempt list \<Rightarrow> 'h \<Rightarrow> 'h" where
  "ws_run L c H [] h = h"
| "ws_run L c H (a # as) h =
    ws_run L c H as (mh_on_disconnected H (snd (stream_once L c H a h)))"

text \<open>The policy stream: the handler of the permission engine, and the client with its timeouts.\<close>

definition config_stream_handler ::
  "(string \<Rightarrow> address option) \<Rightarrow> (string \<Rightarrow> stream_frame option) \<Rightarrow> permission_engine message_handler" where
  "config_stream_handler pa pf =
    \<lparr>mh_on_message = on_message pa pf, mh_on_connected = on_connected, mh_on_disconnected = on_disconnected,
     mh_resume_query = resume_query\<rparr>"

definition config_stream_client :: "string \<Rightarrow> string option \<Rightarrow> ws_client" where
  "config_stream_client url auth_token =
    \<lparr>ws_base_url = url, ws_auth_token = auth_token, ws_reconnect_backoff = 3, ws_read_idle_timeout = 90\<rparr>"

section \<open>Handlers that track liveness\<close>

locale liveness_handler =
  fixes H :: "'h message_handler" and live :: "'h \<Rightarrow> bool"
  assumes connected_live: "live (mh_on_connected H h)"
    and disconnected_dead: "\<not> live (mh_on_disconnected H h)"
    and message_live: "live (mh_on_message H now txt h) \<longleftrightarrow> live h"
begin

lemma read_loop_live: "live (snd (read_loop L H rs h)) \<longleftrightarrow> live h"
proof (induction rs arbitrary: h)
  case (Cons r rs)
  show ?case
  proof (cases r)
    case (Received now m)
    then show ?thesis using Cons by (cases m) (simp_all add: message_live split: option.split)
  qed simp_all
qed simp

lemma dead_between: "as \<noteq> [] \<Longrightarrow> \<not> live (ws_run L c H as h)"
proof (induction as arbitrary: h)
  case (Cons a as)
  then show ?case by (cases as) (simp_all add: disconnected_dead)
qed simp

end

lemma on_message_connected [simp]: "engine_connected (on_message pa pf now txt e) = engine_connected e"
  by (simp add: on_message_def engine_store_def split: option.split sum.split)

interpretation cs: liveness_handler "config_stream_handler pa pf" engine_connected for pa pf
  by unfold_locales (simp_all add: config_stream_handler_def on_connected_def on_disconnected_def set_connected_def)

lemma on_message_enabled [simp]: "engine_enabled (on_message pa pf now txt e) = engine_enabled e"
  by (simp add: on_message_def engine_store_def split: option.split sum.split)

lemma read_loop_enabled:
  "engine_enabled (snd (read_loop L (config_stream_handler pa pf) rs e)) = engine_enabled e"
proof (induction rs arbitrary: e)
  case (Cons r rs)
  show ?case
  proof (cases r)
    case (Received now m)
    then show ?thesis using Cons by (cases m) (simp_all add: config_stream_handler_def split: option.split)
  qed simp_all
qed simp

lemma ws_run_enabled:
  "engine_enabled (ws_run L c (config_stream_handler pa pf) as e) = engine_enabled e"
proof (induction as arbitrary: e)
  case (Cons a as)
  have "engine_enabled (snd (stream_once L c (config_stream_handler pa pf) a e)) = engine_enabled e"
    using read_loop_enabled[of L pa pf]
    by (simp add: stream_once_def Let_def config_stream_handler_def on_connected_def set_connected_def split: sum.split)
  then show ?case using Cons.IH by (simp add: config_stream_handler_def on_disconnected_def set_connected_def)
qed simp

lemma disconnected_denies:
  assumes "engine_enabled e" "\<not> engine_connected e"
  shows "evaluate_tx e a cr v = Deny ConfigUnavailable" "evaluate_xt e a l involved = Deny ConfigUnavailable"
    "\<not> engine_is_ready e"
  using assms by (simp_all add: evaluate_tx_def evaluate_xt_def resolve_group_def fresh_def engine_is_ready_def)

section \<open>Properties\<close>

text \<open>C23: the sidecar fails closed between connections.  With permissions enabled, whenever the policy
  client waits to reconnect, however the attempts before went and whatever they delivered, every
  transaction and every cross-rollup instance is denied and the sidecar is not ready; the next attempt asks
  for the updates since the snapshot it holds.\<close>

theorem stream_gap_denies:
  assumes "engine_enabled e" "as \<noteq> []"
  shows "let e' = ws_run L c (config_stream_handler pa pf) as e in
    evaluate_tx e' a cr v = Deny ConfigUnavailable \<and> evaluate_xt e' a l involved = Deny ConfigUnavailable \<and>
    \<not> engine_is_ready e' \<and>
    (\<forall>s. engine_snapshot e' = Some s \<longrightarrow> connect_url c (resume_query e') =
       ws_base_url c @ (if CHR ''?'' \<in> set (ws_base_url c) then ''&'' else ''?'') @ ''since='' @ show_u64 (snap_version s))"
  using disconnected_denies[OF _ cs.dead_between[OF assms(2)], of L c pa pf e] ws_run_enabled[of L c pa pf as e] assms(1)
  by (simp add: Let_def connect_url_def resume_query_def engine_version_def)

theorem stream_gap_denies_witness:
  "let e' = ws_run \<lparr>into_client_request = Inr, header_value = Some, from_utf8 = \<lambda>b. None\<rparr>
      (config_stream_client ''ws://policy'' None) (config_stream_handler (\<lambda>s. None) (\<lambda>s. None))
      [\<lparr>wa_connect = \<lambda>r. Inr (), wa_reads = [Received 1 (Text ''x''), Received 2 Ping, IdleTimeout]\<rparr>] demo_engine
   in evaluate_tx e' 7 False False = Deny ConfigUnavailable"
  unfolding Let_def
  by (rule stream_gap_denies[unfolded Let_def, THEN conjunct1]) (simp_all add: demo_engine_def)

end
