(* ===== verification/Interleaving.thy ===== *)
theory Interleaving
  imports Simulation_Pipeline
begin

text \<open>
  All interleavings of the coordinator's tasks.  Every handler and every pipeline
  task takes the state lock for one section at a time and calls the builder, the
  nonce lane and the network between its sections, so a run of the process is a
  sequence of sections and builder commands of any tasks in any order.  A step may
  use any coordinator value: the clock, the connection of the publisher and the
  answers of the collaborators change from step to step.  What is shown to hold in
  every reachable system therefore holds at every point of every interleaving.
\<close>

inductive section_step :: "coordinator \<Rightarrow> coordinator_state \<Rightarrow> coordinator_state \<Rightarrow> bool" for C where
  on_decision: "section_step C s (snd (on_decision_section C i d s))"
| peer_vote: "section_step C s (snd (peer_vote_section C i cid v s))"
| send_vote: "section_step C s (snd (send_vote_section C i v s))"
| mailbox: "section_step C s (mailbox_section msg s)"
| forwarded_xt: "section_step C s (snd (forwarded_xt_section C i txs oc osq s))"
| start_instance: "section_step C s (snd (start_instance_section C inst raw loc s))"
| submit_standalone: "section_step C s (snd (submit_standalone_section C txs s))"
| enqueue: "section_step C s (snd (enqueue_waiter fp wt s))"
| resolve: "section_step C s (s\<lparr>pending_submissions := hm_remove fp (pending_submissions s)\<rparr>)"
| remove_pending: "section_step C s (snd (remove_pending_xt_from_state C i s))"
| confirm: "section_step C s (confirm_section (clock C) ids s)"
| rollback: "section_step C s (snd (snd (rollback_section C s)))"
| start_period: "section_step C s (snd (snd (start_period_section C p s)))"
| housekeeping: "section_step C s (cleanup C max_age s)"
| lock: "section_step C s (lock_chain C i s)"
| record_simulation: "section_step C s (snd (record_simulation_state C i r ov s))"
| fulfill: "section_step C s (snd (fulfill_dependencies_from_mailbox i deps s))"
| dispatch: "section_step C s (sys_state (snd (dispatch_outbound_mailbox C i ms (w\<lparr>sys_state := s\<rparr>))))"

inductive sidecar_step :: "sys \<Rightarrow> sys \<Rightarrow> bool" where
  in_section: "hex_spec (ext C) \<Longrightarrow> section_step C (sys_state w) s \<Longrightarrow> sidecar_step w (w\<lparr>sys_state := s\<rparr>)"
| builder: "sidecar_step w (snd (apply_builder_command C cmd w))"
| confirm_nonces: "sidecar_step w (w\<lparr>sys_nonces := fold release_confirmed ids (sys_nonces w)\<rparr>)"
| reset_nonces: "sidecar_step w (w\<lparr>sys_nonces := nonce_reset (sys_nonces w)\<rparr>)"
| record_message: "sidecar_step w (w\<lparr>sys_queue := snd (queue_record msg (sys_queue w))\<rparr>)"
| effect: "sidecar_step w (emit e w)"

definition sidecar_inv :: "sys \<Rightarrow> bool" where
  "sidecar_inv w \<longleftrightarrow> coord_inv (sys_state w) \<and> nm_inv (sys_nonces w)"

lemmas section_invs =
  on_decision_section_inv peer_vote_section_inv send_vote_section_inv mailbox_section_inv forwarded_xt_section_inv
  start_instance_section_inv submit_standalone_section_inv remove_inv confirm_section_inv rollback_section_inv
  start_period_section_inv cleanup_inv lock_chain_inv record_simulation_inv fulfill_inv

lemma section_step_inv:
  assumes "section_step C s t" "coord_inv s" "hex_spec (ext C)"
  shows "coord_inv t"
  using assms(1)
proof cases
  case (dispatch i ms w)
  then show ?thesis using dispatch_inv[of "w\<lparr>sys_state := s\<rparr>" C i ms] assms(2) by simp
qed (use assms in \<open>simp_all add: section_invs enqueue_waiter_def Let_def\<close>)

lemma fold_confirmed_inv: "nm_inv n \<Longrightarrow> nm_inv (fold release_confirmed ids n)"
  by (induction ids arbitrary: n) (simp_all add: inv_confirmed)

lemma sidecar_step_inv: "sidecar_step w w' \<Longrightarrow> sidecar_inv w \<Longrightarrow> sidecar_inv w'"
  by (induction rule: sidecar_step.induct)
    (auto simp: sidecar_inv_def section_step_inv apply_builder_command_inv fold_confirmed_inv inv_reset
      apply_builder_command_state simp del: apply_builder_command.simps)

interpretation sc: step_invariant "(=) sys_new" sidecar_step sidecar_inv
proof
  show "sidecar_inv w" if "sys_new = w" for w
    using that by (auto simp: sidecar_inv_def sys_new_def coord_inv_new inv_new)
  show "sidecar_inv t" if "sidecar_inv w" "sidecar_step w t" for w t
    using sidecar_step_inv that by blast
qed

section \<open>The handlers are runs of the step relation\<close>

text \<open>
  A handler as a whole is a sequence of steps, so the relation covers what the code
  does; the other tasks may step in between.
\<close>

abbreviation steps :: "sys \<Rightarrow> sys \<Rightarrow> bool" where
  "steps \<equiv> sidecar_step\<^sup>*\<^sup>*"

lemma steps_emit: "steps w w' \<Longrightarrow> steps w (emit e w')"
  by (rule rtranclp.rtrancl_into_rtrancl) (auto intro: sidecar_step.effect)

lemma steps_section:
  "steps w w' \<Longrightarrow> hex_spec (ext C) \<Longrightarrow> section_step C (sys_state w') s \<Longrightarrow> steps w (w'\<lparr>sys_state := s\<rparr>)"
  by (rule rtranclp.rtrancl_into_rtrancl) (auto intro: sidecar_step.in_section)

lemma steps_builder: "steps w w' \<Longrightarrow> steps w (snd (apply_builder_command C cmd w'))"
  by (rule rtranclp.rtrancl_into_rtrancl) (auto intro: sidecar_step.builder simp del: apply_builder_command.simps)

lemma steps_builder_opt: "steps w w' \<Longrightarrow> steps w (snd (apply_builder_command_opt C cmd w'))"
  by (cases cmd) (simp_all add: apply_builder_command_opt_def steps_builder del: apply_builder_command.simps)

lemma steps_fold_emit: "steps w w' \<Longrightarrow> steps w (fold (\<lambda>x. emit (f x)) xs w')"
  by (induction xs arbitrary: w') (simp_all add: steps_emit)

lemma steps_notify: "steps w w' \<Longrightarrow> steps w (notify_pending_submission_waiters ws r w')"
  by (simp add: notify_pending_submission_waiters_def steps_fold_emit)

lemma steps_notify_all:
  "steps w w' \<Longrightarrow> steps w (fold (\<lambda>ws. notify_pending_submission_waiters ws r) wss w')"
  by (induction wss arbitrary: w') (simp_all add: steps_notify)

lemma steps_resolve:
  fixes C :: coordinator
  assumes "steps w w'" "hex_spec (ext C)"
  shows "steps w (resolve_pending_submission fp r w')"
  using steps_section[OF assms section_step.resolve[of C _ fp]]
  by (simp add: resolve_pending_submission_def Let_def steps_notify split: option.split)

lemma steps_submit: "steps w w' \<Longrightarrow> steps w (snd (submit_xt_to_builder C sub w'))"
  by (simp add: submit_xt_to_builder_def steps_emit split: option.split)

lemma steps_remove:
  assumes "steps w w'" "hex_spec (ext C)"
  shows "steps w (snd (remove_pending_xt C i w'))"
  using steps_section[OF assms section_step.remove_pending[of C _ i]]
  by (auto simp: remove_pending_xt_def split: prod.split)

lemma steps_reject: "steps w w' \<Longrightarrow> steps w (reject_start_instance C msg w')"
  by (simp add: reject_start_instance_def steps_emit split: option.split)

lemma steps_abort_all: "steps w w' \<Longrightarrow> steps w (snd (abort_all C ids w'))"
proof (induction ids arbitrary: w')
  case (Cons i ids)
  obtain r w1 where a: "apply_builder_command C (Abort i) w' = (r, w1)" by force
  then have "steps w w1" using steps_builder[OF Cons.prems, of C "Abort i"] by (simp del: apply_builder_command.simps)
  then show ?case using Cons.IH a by (simp del: apply_builder_command.simps split: sum.split)
qed simp

lemma steps_send_all: "steps w w' \<Longrightarrow> steps w (snd (send_all sender ms w'))"
  by (induction ms arbitrary: w') (simp_all add: Let_def steps_emit split: sum.split)

lemmas steps_rules = steps_emit steps_section steps_builder steps_builder_opt steps_resolve steps_submit
  steps_remove steps_reject steps_abort_all

text \<open>A handler that runs one section and then a builder command.\<close>

lemma steps_decision:
  assumes "hex_spec (ext C)"
  shows "steps w (snd (on_decision C i d w))" "steps w (snd (handle_peer_vote C i cid v w))"
proof -
  have "steps w (w\<lparr>sys_state := snd (on_decision_section C i d (sys_state w))\<rparr>)"
    "steps w (w\<lparr>sys_state := snd (peer_vote_section C i cid v (sys_state w))\<rparr>)"
    using assms by (auto intro: steps_section section_step.intros)
  then show "steps w (snd (on_decision C i d w))" "steps w (snd (handle_peer_vote C i cid v w))"
    by (auto simp: on_decision_def handle_peer_vote_def steps_builder_opt split: prod.split sum.split)
qed

lemma send_vote_steps:
  assumes "hex_spec (ext C)"
  shows "steps w (snd (send_vote C i v w))"
proof -
  obtain r s where sec: "send_vote_section C i v (sys_state w) = (r, s)" by force
  have s: "steps w (w\<lparr>sys_state := s\<rparr>)"
    using steps_section[OF rtranclp.rtrancl_refl assms section_step.send_vote[of C _ i v], of w] sec by simp
  show ?thesis
  proof (cases r)
    case None
    then show ?thesis using s sec by (simp add: send_vote_def)
  next
    case (Some p)
    obtain b cmd where p: "p = (b, cmd)" by force
    obtain res w1 where a: "apply_builder_command_opt C cmd (w\<lparr>sys_state := s\<rparr>) = (res, w1)" by force
    have "steps w w1" using steps_builder_opt[OF s, of C cmd] a by simp
    then show ?thesis using sec Some p a by (cases res) (simp_all add: send_vote_def steps_emit)
  qed
qed


lemma submit_or_remove_steps:
  assumes "steps w w1" "hex_spec (ext C)"
    and "(case sub of None \<Rightarrow> (Inr (), w1) | Some b \<Rightarrow> submit_xt_to_builder C b w1) = (r, w2)"
  shows "steps w w2"
  using assms steps_submit[OF assms(1), of C] by (auto split: option.splits) (metis snd_conv)

lemma handle_forwarded_xt_steps:
  assumes h: "hex_spec (ext C)"
  shows "steps w (snd (handle_forwarded_xt C i txs oc osq w))"
proof -
  define clean where "clean = hm_retain (\<lambda>_ chain_txs. chain_txs \<noteq> []) txs"
  obtain r s where sec: "forwarded_xt_section C i clean oc osq (sys_state w) = (r, s)" by force
  have s: "steps w (w\<lparr>sys_state := s\<rparr>)"
    using steps_section[OF rtranclp.rtrancl_refl h section_step.forwarded_xt[of C _ i clean oc osq], of w] sec by simp
  show ?thesis
  proof (cases "i = [] \<or> clean = [] \<or> (\<forall>p. r \<noteq> Inr (Some p))")
    case True
    then show ?thesis
      using s sec unfolding handle_forwarded_xt_def clean_def[symmetric]
      by (auto simp: Let_def split: sum.splits option.splits)
  next
    case False
    then obtain loc sub where r: "r = Inr (Some (loc, sub))" "i \<noteq> []" "clean \<noteq> []" by auto
    obtain q w2 where q: "(case sub of None \<Rightarrow> (Inr (), w\<lparr>sys_state := s\<rparr>)
        | Some b \<Rightarrow> submit_xt_to_builder C b (w\<lparr>sys_state := s\<rparr>)) = (q, w2)" by force
    have "steps w w2" by (rule submit_or_remove_steps[OF s h q])
    then show ?thesis
      using sec r q h unfolding handle_forwarded_xt_def clean_def[symmetric]
      by (cases q) (simp_all add: Let_def steps_rules)
  qed
qed

lemma submit_xt_standalone_steps:
  assumes h: "hex_spec (ext C)"
  shows "steps w (snd (submit_xt_standalone C txs w))"
proof -
  obtain r s where sec: "submit_standalone_section C txs (sys_state w) = (r, s)" by force
  have s: "steps w (w\<lparr>sys_state := s\<rparr>)"
    using steps_section[OF rtranclp.rtrancl_refl h section_step.submit_standalone[of C _ txs], of w] sec by simp
  show ?thesis
  proof (cases "\<exists>p. r = Inr (Inr p)")
    case False
    then show ?thesis
      using s sec by (auto simp: submit_xt_standalone_def split: sum.splits)
  next
    case True
    then obtain i sub where r: "r = Inr (Inr (i, sub))" by auto
    obtain q w2 where q: "(case sub of None \<Rightarrow> (Inr (), w\<lparr>sys_state := s\<rparr>)
        | Some b \<Rightarrow> submit_xt_to_builder C b (w\<lparr>sys_state := s\<rparr>)) = (q, w2)" by force
    have "steps w w2" by (rule submit_or_remove_steps[OF s h q])
    then show ?thesis
      using sec r q h by (cases q) (simp_all add: submit_xt_standalone_def Let_def steps_rules)
  qed
qed

lemma submit_xt_publisher_steps:
  assumes h: "hex_spec (ext C)"
  shows "steps w (snd (submit_xt_publisher C wt out txs w))"
proof (cases "publisher C")
  case (Some p)
  define fp where "fp = xt_request_fingerprint (ext C) (encode_xt_request C) (build_xt_request txs)"
  define data where "data = encode_wire_message C (build_xt_request txs)"
  obtain b s where sec: "enqueue_waiter fp wt (sys_state w) = (b, s)" by force
  have s: "steps w (w\<lparr>sys_state := s\<rparr>)"
    using steps_section[OF rtranclp.rtrancl_refl h section_step.enqueue[of C _ fp wt], of w] sec by simp
  define w1 where "w1 = (if b then emit (EPublisherRaw data) (w\<lparr>sys_state := s\<rparr>) else w\<lparr>sys_state := s\<rparr>)"
  have w1: "steps w w1" using s by (simp add: w1_def steps_emit)
  have "snd (submit_xt_publisher C wt out txs w) \<in> {w1} \<union> range (\<lambda>m. resolve_pending_submission fp (Inl m) w1)"
    using Some sec unfolding submit_xt_publisher_def fp_def[symmetric] Let_def
    by (auto simp: data_def[symmetric] w1_def split: sum.split submission_outcome.split)
  then show ?thesis using w1 steps_resolve[OF w1 h] by auto
qed (simp add: submit_xt_publisher_def)

lemma handle_mailbox_message_steps:
  assumes h: "hex_spec (ext C)"
  shows "steps w (snd (handle_mailbox_message C msg w))"
proof -
  obtain r q where q: "(if has_mailbox_queue C then queue_record msg (sys_queue w) else (Inr (), sys_queue w)) = (r, q)"
    by force
  have "sidecar_step w (w\<lparr>sys_queue := q\<rparr>) \<or> q = sys_queue w"
    using q sidecar_step.record_message[of w msg] by (auto split: if_splits)
  then have w1: "steps w (w\<lparr>sys_queue := q\<rparr>)" by auto
  then have "steps w ((w\<lparr>sys_queue := q\<rparr>)\<lparr>sys_state := mailbox_section msg (sys_state w)\<rparr>)"
    using steps_section[OF w1 h section_step.mailbox[of C _ msg]] by simp
  then show ?thesis
    using w1 q by (cases r) (simp_all add: handle_mailbox_message_def Let_def steps_emit)
qed

lemma handle_rollback_steps:
  assumes h: "hex_spec (ext C)"
  shows "steps w (snd (handle_rollback C w))"
proof -
  obtain ids subs s where sec: "rollback_section C (sys_state w) = (ids, subs, s)" by (metis prod_cases3)
  have "steps w (w\<lparr>sys_state := s\<rparr>)"
    using steps_section[OF rtranclp.rtrancl_refl h section_step.rollback[of C], of w] sec by simp
  moreover obtain r w1 where a: "abort_all C ids (w\<lparr>sys_state := s\<rparr>) = (r, w1)" by force
  ultimately have w1: "steps w w1" using steps_abort_all[of w _ C ids] by (metis snd_conv)
  then have "steps w (w1\<lparr>sys_nonces := nonce_reset (sys_nonces w1)\<rparr>)"
    by (rule rtranclp.rtrancl_into_rtrancl) (rule sidecar_step.reset_nonces)
  then show ?thesis
    using w1 sec a by (cases r) (simp_all add: handle_rollback_def Let_def steps_notify_all)
qed

lemma handle_start_period_steps:
  assumes h: "hex_spec (ext C)"
  shows "steps w (snd (handle_start_period C p w))"
proof -
  obtain ab ids s where sec: "start_period_section C p (sys_state w) = (ab, ids, s)" by (metis prod_cases3)
  have "steps w (w\<lparr>sys_state := s\<rparr>)"
    using steps_section[OF rtranclp.rtrancl_refl h section_step.start_period[of C _ p], of w] sec by simp
  moreover obtain r w1 where a: "abort_all C ids (w\<lparr>sys_state := s\<rparr>) = (r, w1)" by force
  ultimately have w1: "steps w w1" using steps_abort_all[of w _ C ids] by (metis snd_conv)
  then show ?thesis
    using sec a by (cases r) (simp_all add: handle_start_period_def steps_fold_emit)
qed

lemma confirm_steps:
  assumes h: "hex_spec (ext C)"
  shows "steps w (snd (confirm_included_xts C ids w))"
proof -
  let ?w = "w\<lparr>sys_state := confirm_section (clock C) ids (sys_state w)\<rparr>"
  have "steps w ?w" by (rule steps_section[OF rtranclp.rtrancl_refl h section_step.confirm])
  then have "steps w (?w\<lparr>sys_nonces := fold release_confirmed ids (sys_nonces ?w)\<rparr>)"
    by (rule rtranclp.rtrancl_into_rtrancl) (rule sidecar_step.confirm_nonces)
  then show ?thesis by (simp add: confirm_included_xts_def)
qed

lemma handle_start_instance_steps:
  assumes h: "hex_spec (ext C)"
  shows "steps w (snd (handle_start_instance C msg w))"
proof (cases "\<exists>req inst. si_xt_request msg = Some req \<and> spec_instance_try_from C msg = Inr inst")
  case False
  then show ?thesis
    using h by (auto simp: handle_start_instance_def Let_def intro!: steps_reject steps_resolve split: option.split sum.split)
next
  case True
  then obtain req inst where req: "si_xt_request msg = Some req" "spec_instance_try_from C msg = Inr inst" by blast
  define fp where "fp = xt_request_fingerprint (ext C) (encode_xt_request C) req"
  define raw where "raw = group_raw_txs (inst_xt_request inst)"
  define loc where "loc \<longleftrightarrow> chain_id C \<in> set (chains_from_request C (inst_xt_request inst)) \<and>
    (case hm_get raw (chain_id C) of None \<Rightarrow> False | Some txs \<Rightarrow> txs \<noteq> [])"
  obtain oc s where sec: "start_instance_section C inst raw loc (sys_state w) = (oc, s)" by force
  have s: "steps w (w\<lparr>sys_state := s\<rparr>)"
    using steps_section[OF rtranclp.rtrancl_refl h section_step.start_instance[of C _ inst raw loc], of w] sec by simp
  note unfold = handle_start_instance_def Let_def fp_def[symmetric] raw_def[symmetric] loc_def[symmetric]
  show ?thesis
  proof (cases oc)
    case (SiRegistered sub)
    obtain q w2 where q: "(case sub of None \<Rightarrow> (Inr (), w\<lparr>sys_state := s\<rparr>)
        | Some b \<Rightarrow> submit_xt_to_builder C b (w\<lparr>sys_state := s\<rparr>)) = (q, w2)" by force
    have "steps w w2" by (rule submit_or_remove_steps[OF s h q])
    then have "steps w (resolve_pending_submission fp r w2)" "steps w (snd (remove_pending_xt C i w2))" for r i
      using steps_resolve steps_remove h by blast+
    then show ?thesis
      using req sec SiRegistered q h steps_resolve[OF _ h]
      by (cases q) (simp_all add: unfold steps_emit steps_reject)
  qed (use req sec s steps_resolve[OF s h] in \<open>simp_all add: unfold steps_reject\<close>)
qed

section \<open>The pipeline\<close>

text \<open>While a pipeline task waits, the other tasks take steps of their own.\<close>

definition steps_events :: "wait_event list \<Rightarrow> bool" where
  "steps_events events \<longleftrightarrow> (\<forall>f w. Notified f \<in> set events \<longrightarrow> steps w (f w))"

lemma wait_steps:
  "wait_for_dependencies i deps events w = (b, events', w') \<Longrightarrow> steps_events events \<Longrightarrow>
    hex_spec (ext (C :: coordinator)) \<Longrightarrow> steps w0 w \<Longrightarrow> steps_events events' \<and> steps w0 w'"
proof (induction events arbitrary: w)
  case Nil
  obtain n s where f: "fulfill_dependencies_from_mailbox i deps (sys_state w) = (n, s)" by force
  have "steps w0 (w\<lparr>sys_state := s\<rparr>)"
    using steps_section[OF Nil(4,3) section_step.fulfill[of C _ i deps]] f by simp
  then show ?case
    using Nil(1,2) f wait_for_dependencies.simps[of i deps "[]" w] by (auto simp: Let_def split: if_splits)
next
  case (Cons e events)
  obtain n s where f: "fulfill_dependencies_from_mailbox i deps (sys_state w) = (n, s)" by force
  have st: "steps w0 (w\<lparr>sys_state := s\<rparr>)"
    using steps_section[OF Cons.prems(4,3) section_step.fulfill[of C _ i deps]] f by simp
  note step = wait_for_dependencies.simps[of i deps "e # events" w]
  have tl: "steps_events events" using Cons.prems(2) by (simp add: steps_events_def)
  show ?case
  proof (cases "n > 0 \<or> e = Deadline")
    case True
    then show ?thesis using Cons.prems(1,2) f st tl step by (auto simp: Let_def split: if_splits)
  next
    case False
    then obtain g where e: "e = Notified g" by (cases e) auto
    have "wait_for_dependencies i deps events (g (w\<lparr>sys_state := s\<rparr>)) = (b, events', w')"
      using Cons.prems(1) False e f step by (simp add: Let_def)
    moreover have "steps w0 (g (w\<lparr>sys_state := s\<rparr>))"
      using Cons.prems(2) st e unfolding steps_events_def by (meson list.set_intros(1) rtranclp_trans)
    ultimately show ?thesis using Cons.IH tl Cons.prems(3) by blast
  qed
qed

lemma dispatch_steps:
  assumes "hex_spec (ext C)" "steps w0 w"
  shows "steps w0 (snd (dispatch_outbound_mailbox C i ms w))"
proof (cases "ms = [] \<or> mailbox_sender C = None \<or> hm_get (pending (sys_state w)) i = None")
  case True
  then show ?thesis using assms(2) by (auto simp: dispatch_outbound_mailbox_def split: option.split)
next
  case False
  then obtain sender xt where x: "ms \<noteq> []" "mailbox_sender C = Some sender" "hm_get (pending (sys_state w)) i = Some xt"
    by auto
  obtain ts xt' where q: "fold queue_outbound ms ([], xt) = (ts, xt')" by force
  let ?w = "w\<lparr>sys_state := (sys_state w)\<lparr>pending := hm_insert i xt' (pending (sys_state w))\<rparr>\<rparr>"
  have run: "dispatch_outbound_mailbox C i ms w = send_all sender ts ?w"
    using x q by (simp add: dispatch_outbound_mailbox_def)
  have "steps w0 ?w"
    using steps_section[OF assms(2,1) section_step.dispatch[of C _ i ms w]] run by simp
  then show ?thesis unfolding run by (rule steps_send_all)
qed

interpretation sr: simulation_run C i steps_events
  "\<lambda>w. hex_spec (ext C) \<longrightarrow> steps w0 w" "\<lambda>w. hex_spec (ext C) \<longrightarrow> steps w0 w" "\<lambda>w. hex_spec (ext C) \<longrightarrow> steps w0 w"
  for C i w0
proof
  show "hex_spec (ext C) \<longrightarrow> steps w0 (recorded C i r ov w)" if "hex_spec (ext C) \<longrightarrow> steps w0 w" for r ov w
    using that steps_section[OF _ _ section_step.record_simulation[of C _ i r ov]] by blast
  show "hex_spec (ext C) \<longrightarrow> steps w0 (snd (send_vote C i False w))" if "hex_spec (ext C) \<longrightarrow> steps w0 w" for w
    using that send_vote_steps[of C w i False] by (meson rtranclp_trans)
  show "steps_events events' \<and>
      (if b then hex_spec (ext C) \<longrightarrow> steps w0 w' else hex_spec (ext C) \<longrightarrow> steps w0 w')"
    if "steps_events events" "hex_spec (ext C) \<longrightarrow> steps w0 w"
      "wait_for_dependencies i deps events w = (b, events', w')" for events w deps b events' w'
    using that wait_steps[OF that(3,1)] wait_events[OF that(3)] by (auto simp: steps_events_def)
qed (auto intro: dispatch_steps)

lemma process_xt_steps:
  assumes h: "hex_spec (ext C)" and ev: "steps_events events"
  shows "steps w (process_xt C i events w)"
proof -
  let ?w = "w\<lparr>sys_state := lock_chain C i (sys_state w)\<rparr>"
  have lock: "steps w ?w" by (rule steps_section[OF rtranclp.rtrancl_refl h section_step.lock])
  have run: "steps w w'" if "simulate_txs C sim i txs ov fd events ?w = (b, ev', w')" for sim txs ov fd b ev' w'
    using sr.run_txs[OF that ev, of w] lock h by (auto split: if_splits)
  have vote: "steps w (snd (send_vote C i v w'))" if "steps w w'" for v w'
    using that send_vote_steps[OF h] by (meson rtranclp_trans)
  show ?thesis
    unfolding process_xt_def Let_def
    by (auto simp del: simulate_txs.simps intro!: vote lock dest: run split: option.split list.split sum.split prod.splits bool.splits)
qed

section \<open>Properties\<close>

inductive handler_run :: "coordinator \<Rightarrow> sys \<Rightarrow> sys \<Rightarrow> bool" for C where
  "handler_run C w (snd (submit_xt C wt out txs w))"
| "handler_run C w (snd (handle_start_instance C msg w))"
| "handler_run C w (snd (handle_forwarded_xt C i txs oc osq w))"
| "handler_run C w (snd (handle_mailbox_message C mm w))"
| "handler_run C w (snd (on_decision C i d w))"
| "handler_run C w (snd (handle_peer_vote C i cid v w))"
| "handler_run C w (snd (handle_start_period C p w))"
| "handler_run C w (snd (handle_rollback C w))"
| "handler_run C w (snd (confirm_included_xts C ids w))"
| "handler_run C w (w\<lparr>sys_state := cleanup C max_age (sys_state w)\<rparr>)"
| "steps_events events \<Longrightarrow> handler_run C w (process_xt C i events w)"

lemma submit_xt_steps: "hex_spec (ext C) \<Longrightarrow> steps w (snd (submit_xt C wt out txs w))"
  by (simp add: submit_xt_def submit_xt_publisher_steps submit_xt_standalone_steps)

lemma cleanup_steps: "hex_spec (ext C) \<Longrightarrow> steps w (w\<lparr>sys_state := cleanup C a (sys_state w)\<rparr>)"
  by (rule steps_section[OF rtranclp.rtrancl_refl]) (auto intro: section_step.housekeeping)


text \<open>Hexadecimal encoding as the \<open>hex\<close> crate documents it, for the concrete instances.\<close>

definition hex_digit :: "nat \<Rightarrow> char" where
  "hex_digit n = ''0123456789abcdef'' ! n"

definition hex_text :: "bytes \<Rightarrow> string" where
  "hex_text bs = concat (map (\<lambda>b. [hex_digit (unat b div 16), hex_digit (unat b mod 16)]) bs)"

definition hex_value :: "char \<Rightarrow> nat" where
  "hex_value c = length (takeWhile (\<lambda>d. d \<noteq> c) ''0123456789abcdef'')"

fun hex_bytes :: "string \<Rightarrow> bytes option" where
  "hex_bytes [] = Some []"
| "hex_bytes [c] = None"
| "hex_bytes (c # d # cs) = map_option ((#) (word_of_nat (16 * hex_value c + hex_value d))) (hex_bytes cs)"

definition hex_coordinator :: coordinator where
  "hex_coordinator = demo_coordinator\<lparr>ext := toy_externals\<lparr>hex_encode := hex_text, hex_decode := hex_bytes\<rparr>\<rparr>"

lemma hex_digit_value: "n < 16 \<Longrightarrow> hex_value (hex_digit n) = n \<and> hex_digit n \<in> hex_digits"
  by (auto simp: hex_value_def hex_digit_def hex_digits_def less_Suc_eq numeral_eq_Suc)

lemma hex_coordinator_spec: "hex_spec (ext hex_coordinator)"
proof -
  have b: "unat (b :: u8) div 16 < 16" for b using unat_bound[of b] by (simp add: less_mult_imp_div_less)
  have w: "16 * word_of_nat (unat b div 16) + word_of_nat (unat b mod 16) = (b :: u8)" for b
  proof -
    have "(word_of_nat (16 * (unat b div 16) + unat b mod 16) :: u8) = b" by (simp only: mult_div_mod_eq) simp
    then show ?thesis by (simp only: of_nat_add of_nat_mult of_nat_numeral)
  qed
  have "hex_bytes (hex_text bs) = Some bs \<and> set (hex_text bs) \<subseteq> hex_digits" for bs
    using hex_digit_value[OF b] hex_digit_value[of "unat _ mod 16"]
    by (induction bs) (auto simp: hex_text_def w)
  then show ?thesis by (simp add: hex_spec_def hex_coordinator_def)
qed

lemma reach_steps: "steps sys_new w \<Longrightarrow> reach ((=) sys_new) sidecar_step w"
  by (induction rule: rtranclp.induct) (auto intro: reach.intros)


text \<open>C33: in every reachable system, under every interleaving, at most a hundred XTs are undecided, a
  raw instance id leads to a pending XT of that id, the orphan buffer respects both caps, each XT keeps
  decision, vote and their times in step, and no nonce belongs to two XTs.\<close>

theorem reachable_invariant:
  assumes "reach ((=) sys_new) sidecar_step w"
  shows "undecided_count (sys_state w) \<le> 100 \<and>
    (\<forall>raw i. hm_get (mailbox_index (sys_state w)) raw = Some i \<longrightarrow>
       (\<exists>xt. hm_get (pending (sys_state w)) i = Some xt \<and> xt_instance_id xt = raw)) \<and>
    length (mailbox_buffer (sys_state w)) \<le> 1024 \<and>
    (\<forall>raw b. hm_get (mailbox_buffer (sys_state w)) raw = Some b \<longrightarrow> length b \<le> 256) \<and>
    (\<forall>i xt. hm_get (pending (sys_state w)) i = Some xt \<longrightarrow> xt_id xt = i \<and> xt_inv xt) \<and>
    (\<forall>i j n. n \<in> owned (sys_nonces w) i \<and> n \<in> owned (sys_nonces w) j \<longrightarrow> i = j)"
proof -
  have c: "coord_inv (sys_state w)" and n: "nm_inv (sys_nonces w)"
    using sc.reach_inv[OF assms] by (simp_all add: sidecar_inv_def)
  note p = coord_inv_parts[OF c]
  have "undecided_count (sys_state w) \<le> 100" using p(5) by (simp add: max_pending_xts_def)
  moreover have "length (mailbox_buffer (sys_state w)) \<le> 1024"
    "hm_get (mailbox_buffer (sys_state w)) raw = Some b \<Longrightarrow> length b \<le> 256" for raw b
    using p(4) by (simp_all add: buffer_inv_def mailbox_buffer_max_keys_def mailbox_buffer_max_per_key_def)
  ultimately show ?thesis
    using coord_inv_index[OF c] coord_inv_xt[OF c] inv_owned_unique[OF n] by blast
qed

theorem reachable_invariant_witness:
  "undecided_count (sys_state (snd (handle_mailbox_message hex_coordinator demo_message sys_new))) \<le> 100"
proof -
  show ?thesis
    using reachable_invariant[OF reach_steps[OF handle_mailbox_message_steps[OF hex_coordinator_spec]]] by blast
qed

text \<open>C35: the statuses \<open>waiting_circ\<close> and \<open>simulated\<close> are never reported: in every reachable system the
  status of a pending XT is another one, because the simulation time is only set together with the vote
  flag, which is tested first.\<close>

theorem waiting_status_unreachable:
  assumes "reach ((=) sys_new) sidecar_step w" "get_xt_status i (sys_state w) = Inr resp"
  shows "resp_status resp \<in> {Pending, Simulating, Voted, Committed, Aborted}"
proof -
  obtain xt where xt: "hm_get (pending (sys_state w)) i = Some xt" "resp_status resp = determine_xt_status xt"
    using assms(2) by (auto simp: get_xt_status_def split: option.splits)
  have "xt_inv xt" using sc.reach_inv[OF assms(1)] coord_inv_xt[OF _ xt(1)] by (simp add: sidecar_inv_def)
  then show ?thesis unfolding xt(2) by (auto simp: xt_inv_def determine_xt_status_def split: option.split)
qed

theorem waiting_status_unreachable_witness:
  "\<exists>resp. get_xt_status ''xt-1-1'' (sys_state (snd (handle_forwarded_xt hex_coordinator ''xt-1-1''
      [(1, [[1]]), (2, [[2]])] 2 1 sys_new))) = Inr resp \<and>
    resp_status resp \<in> {Pending, Simulating, Voted, Committed, Aborted}"
proof -
  let ?w = "snd (handle_forwarded_xt hex_coordinator ''xt-1-1'' [(1, [[1]]), (2, [[2]])] 2 1 sys_new)"
  have r: "reach ((=) sys_new) sidecar_step ?w"
    by (rule reach_steps[OF handle_forwarded_xt_steps[OF hex_coordinator_spec]])
  have "hm_contains (pending (sys_state ?w)) ''xt-1-1''" by code_simp
  then obtain resp where "get_xt_status ''xt-1-1'' (sys_state ?w) = Inr resp"
    by (auto simp: get_xt_status_def hm_contains_iff)
  from waiting_status_unreachable[OF r this] this show ?thesis by blast
qed


end
