(* ===== verification/Peers.thy ===== *)
theory Peers
  imports Registration
begin

text \<open>
  Sidecar-to-sidecar calls: the request types \<open>net/peer/src/types.rs\<close>, the HTTP peer
  coordinator \<open>net/peer/src/coordinator.rs\<close> with its errors in \<open>net/peer/src/traits.rs\<close>,
  the mailbox sender \<open>net/peer/src/sender.rs\<close>, and the parsing of the peer list in
  \<open>config/src/peer.rs\<close>.

  The HTTP client and the serialisers are the record \<open>peer_http\<close>: a POST returns the
  status code with its display form, or the text of the transport error.  The requests of
  one broadcast run concurrently; the model lists them in the order of the peers.
\<close>

section \<open>Model\<close>

subsection \<open>Requests\<close>

record xt_forward_request =
  fr_instance_id :: string
  fr_transactions :: "(u64, string list) hmap"
  fr_origin_chain :: u64
  fr_origin_seq :: u64

definition xt_forward_request_new ::
  "externals \<Rightarrow> string \<Rightarrow> raw_txs \<Rightarrow> u64 \<Rightarrow> u64 \<Rightarrow> xt_forward_request" where
  "xt_forward_request_new X i txs origin_chain origin_sq =
    \<lparr>fr_instance_id = i,
     fr_transactions = map (\<lambda>(chain, chain_txs). (chain, map (hex_encode X) chain_txs)) txs,
     fr_origin_chain = origin_chain, fr_origin_seq = origin_sq\<rparr>"

text \<open>Collecting fallible results stops at the first error.  \<open>from_hex_error\<close> is the display form of
  the decoding error of a text.\<close>

fun collect :: "('a \<Rightarrow> ('e, 'b) result) \<Rightarrow> 'a list \<Rightarrow> ('e, 'b list) result" where
  "collect f [] = Inr []"
| "collect f (x # xs) =
    (case f x of
       Inl e \<Rightarrow> Inl e
     | Inr y \<Rightarrow> (case collect f xs of Inl e \<Rightarrow> Inl e | Inr ys \<Rightarrow> Inr (y # ys)))"

definition decode_hex :: "externals \<Rightarrow> (string \<Rightarrow> string) \<Rightarrow> string \<Rightarrow> (string, bytes) result" where
  "decode_hex X from_hex_error txt =
    (case hex_decode X txt of None \<Rightarrow> Inl (from_hex_error txt) | Some bs \<Rightarrow> Inr bs)"

definition decode_transactions ::
  "externals \<Rightarrow> (string \<Rightarrow> string) \<Rightarrow> xt_forward_request \<Rightarrow> (string, raw_txs) result" where
  "decode_transactions X from_hex_error req =
    collect (\<lambda>(chain, hex_txs).
      case collect (decode_hex X from_hex_error) hex_txs of
        Inl e \<Rightarrow> Inl e
      | Inr txs \<Rightarrow> Inr (chain, txs)) (fr_transactions req)"

record vote_request =
  vr_instance_id :: string
  vr_chain_id :: u64
  vr_vote :: bool

subsection \<open>The HTTP peer coordinator\<close>

datatype peer_error = PeerNotFound u64 | Request string | Serialization string

fun show_peer_error :: "externals \<Rightarrow> peer_error \<Rightarrow> string" where
  "show_peer_error X (PeerNotFound c) = ''peer not found for chain '' @ show_chain_id X c"
| "show_peer_error X (Request s) = ''request failed: '' @ s"
| "show_peer_error X (Serialization s) = ''serialization error: '' @ s"

record peer_entry =
  pe_chain_id :: u64
  pe_addr :: string

record peer_http =
  http_post :: "string \<Rightarrow> string \<Rightarrow> bytes \<Rightarrow> (string, u32 \<times> string) result"
  json_forward :: "xt_forward_request \<Rightarrow> (string, bytes) result"
  json_vote :: "vote_request \<Rightarrow> (string, bytes) result"
  mailbox_to_vec :: "mailbox_message \<Rightarrow> bytes"

record post =
  post_url :: string
  post_content_type :: string
  post_body :: bytes

record http_peer_coordinator =
  hp_client :: peer_http
  hp_peers :: "peer_entry list"

definition is_success :: "u32 \<Rightarrow> bool" where
  "is_success status \<longleftrightarrow> 200 \<le> status \<and> status < 300"

definition trim_end_slashes :: "string \<Rightarrow> string" where
  "trim_end_slashes s = rev (dropWhile (\<lambda>c. c = CHR ''/'') (rev s))"

definition all_peer_urls :: "http_peer_coordinator \<Rightarrow> string \<Rightarrow> (u64 \<times> string) list" where
  "all_peer_urls P path =
    map (\<lambda>p. let base = trim_end_slashes (pe_addr p) in (pe_chain_id p, base @ path)) (hp_peers P)"

fun join_errors :: "string list \<Rightarrow> string" where
  "join_errors [] = []"
| "join_errors [e] = e"
| "join_errors (e # es) = e @ ''; '' @ join_errors es"

definition forward_one :: "externals \<Rightarrow> http_peer_coordinator \<Rightarrow> bytes \<Rightarrow> u64 \<times> string \<Rightarrow> string option" where
  "forward_one X P body cu =
    (case http_post (hp_client P) (snd cu) ''application/json'' body of
       Inr (status, shown) \<Rightarrow>
         if is_success status then None
         else Some (''chain '' @ show_chain_id X (fst cu) @ '' rejected forward: '' @ shown)
     | Inl e \<Rightarrow> Some (''chain '' @ show_chain_id X (fst cu) @ '' forward failed: '' @ e))"

definition forward_xt ::
  "externals \<Rightarrow> http_peer_coordinator \<Rightarrow> string \<Rightarrow> raw_txs \<Rightarrow> u64 \<Rightarrow> u64 \<Rightarrow> (peer_error, unit) result \<times> post list" where
  "forward_xt X P i txs origin_chain origin_sq =
    (let req = xt_forward_request_new X i txs origin_chain origin_sq in
     case json_forward (hp_client P) req of
       Inl e \<Rightarrow> (Inl (Serialization e), [])
     | Inr body \<Rightarrow>
         (let urls = all_peer_urls P ''/xt/forward'';
              posts = map (\<lambda>cu. \<lparr>post_url = snd cu, post_content_type = ''application/json'', post_body = body\<rparr>) urls;
              errors = List.map_filter (forward_one X P body) urls
          in (if errors = [] then Inr () else Inl (Request (join_errors errors)), posts)))"

definition vote_one :: "externals \<Rightarrow> http_peer_coordinator \<Rightarrow> bytes \<Rightarrow> u64 \<times> string \<Rightarrow> string option" where
  "vote_one X P body cu =
    (case http_post (hp_client P) (snd cu) ''application/json'' body of
       Inr (status, shown) \<Rightarrow>
         if is_success status then None
         else Some (''chain '' @ show_chain_id X (fst cu) @ '' rejected vote: '' @ shown)
     | Inl e \<Rightarrow> Some (''chain '' @ show_chain_id X (fst cu) @ '' vote failed: '' @ e))"

definition send_vote_to_peers ::
  "externals \<Rightarrow> http_peer_coordinator \<Rightarrow> string \<Rightarrow> u64 \<Rightarrow> bool \<Rightarrow> (peer_error, unit) result \<times> post list" where
  "send_vote_to_peers X P i cid vote =
    (let req = \<lparr>vr_instance_id = i, vr_chain_id = cid, vr_vote = vote\<rparr> in
     case json_vote (hp_client P) req of
       Inl e \<Rightarrow> (Inl (Serialization e), [])
     | Inr body \<Rightarrow>
         (let urls = all_peer_urls P ''/xt/vote'';
              posts = map (\<lambda>cu. \<lparr>post_url = snd cu, post_content_type = ''application/json'', post_body = body\<rparr>) urls;
              errors = List.map_filter (vote_one X P body) urls
          in (if errors = [] then Inr () else Inl (Request (join_errors errors)), posts)))"

definition peer_chain_ids :: "http_peer_coordinator \<Rightarrow> u64 list" where
  "peer_chain_ids P = map pe_chain_id (hp_peers P)"

subsection \<open>The mailbox sender\<close>

record peer_mailbox_sender =
  pm_client :: peer_http
  pm_peer_addrs :: "(u64, string) hmap"

definition with_peer_entries :: "peer_http \<Rightarrow> peer_entry list \<Rightarrow> peer_mailbox_sender" where
  "with_peer_entries H entries =
    \<lparr>pm_client = H, pm_peer_addrs = fold (\<lambda>e m. hm_insert (pe_chain_id e) (pe_addr e) m) entries []\<rparr>"

definition mailbox_send ::
  "externals \<Rightarrow> peer_mailbox_sender \<Rightarrow> u64 \<Rightarrow> mailbox_message \<Rightarrow> (coordinator_error, unit) result" where
  "mailbox_send X M dest msg =
    (case hm_get (pm_peer_addrs M) dest of
       None \<Rightarrow> Inl (Other (''no peer address for chain '' @ show_chain_id X dest))
     | Some addr \<Rightarrow>
         if addr = [] then Inl (Other (''empty peer address for chain '' @ show_chain_id X dest))
         else
           let url = trim_end_slashes addr @ ''/mailbox'';
               body = mailbox_to_vec (pm_client M) msg
           in case http_post (pm_client M) url ''application/octet-stream'' body of
                Inr (status, shown) \<Rightarrow>
                  if is_success status then Inr ()
                  else Inl (Mailbox (''peer returned status '' @ shown @ '' for mailbox message''))
              | Inl e \<Rightarrow> Inl (Mailbox e))"

subsection \<open>The configured peers\<close>

text \<open>White space is that of the ASCII range, and a \<open>u64\<close> is read as the standard library does: an
  optional plus sign, then at least one decimal digit, within 64 bits.\<close>

datatype peer_config_error =
    MissingSeparator
  | EmptyChainId
  | InvalidChainId string
  | EmptyAddress
  | DuplicateChainId u64

definition is_space :: "char \<Rightarrow> bool" where
  "is_space c = (let n = of_char c :: nat in n = 32 \<or> 9 \<le> n \<and> n \<le> 13)"

definition trim :: "string \<Rightarrow> string" where
  "trim s = rev (dropWhile is_space (rev (dropWhile is_space s)))"

definition is_digit :: "char \<Rightarrow> bool" where
  "is_digit c = (let n = of_char c :: nat in 48 \<le> n \<and> n \<le> 57)"

definition digits_val :: "string \<Rightarrow> nat" where
  "digits_val s = foldl (\<lambda>v c. 10 * v + (of_char c - 48)) 0 s"

definition parse_u64 :: "string \<Rightarrow> u64 option" where
  "parse_u64 s =
    (let ds = (if s \<noteq> [] \<and> hd s = CHR ''+'' then tl s else s)
     in if ds = [] \<or> \<not> list_all is_digit ds \<or> digits_val ds \<ge> 2 ^ 64 then None
        else Some (word_of_nat (digits_val ds)))"

definition peer_entry_from_str :: "string \<Rightarrow> (peer_config_error, peer_entry) result" where
  "peer_entry_from_str val =
    (case dropWhile (\<lambda>c. c \<noteq> CHR ''='') val of
       [] \<Rightarrow> Inl MissingSeparator
     | _ # addr \<Rightarrow>
         let cid = trim (takeWhile (\<lambda>c. c \<noteq> CHR ''='') val) in
         if cid = [] then Inl EmptyChainId
         else case parse_u64 cid of
                None \<Rightarrow> Inl (InvalidChainId cid)
              | Some c \<Rightarrow>
                  let addr = trim addr in
                  if addr = [] then Inl EmptyAddress
                  else Inr \<lparr>pe_chain_id = c, pe_addr = addr\<rparr>)"

fun check_unique :: "u64 set \<Rightarrow> peer_entry list \<Rightarrow> (peer_config_error, unit) result" where
  "check_unique seen [] = Inr ()"
| "check_unique seen (p # ps) =
    (if pe_chain_id p \<in> seen then Inl (DuplicateChainId (pe_chain_id p))
     else check_unique (insert (pe_chain_id p) seen) ps)"

definition peer_entries :: "peer_entry list \<Rightarrow> (peer_config_error, peer_entry list) result" where
  "peer_entries peers =
    (case check_unique {} peers of Inl e \<Rightarrow> Inl e | Inr _ \<Rightarrow> Inr peers)"

section \<open>Requests: lemmas\<close>

lemma collect_map: "(\<And>x. x \<in> set xs \<Longrightarrow> f (g x) = Inr x) \<Longrightarrow> collect f (map g xs) = Inr xs"
  by (induction xs) auto

lemma decode_hex_encode: "hex_spec X \<Longrightarrow> decode_hex X err (hex_encode X b) = Inr b"
  by (simp add: decode_hex_def hex_spec_def)

text \<open>The transactions a peer decodes are those the origin forwarded.\<close>

lemma forward_roundtrip:
  assumes "hex_spec X"
  shows "decode_transactions X err (xt_forward_request_new X i txs oc sq) = Inr txs"
proof -
  have "collect (decode_hex X err) (map (hex_encode X) ts) = Inr ts" for ts
    by (rule collect_map) (rule decode_hex_encode[OF assms])
  then show ?thesis
    unfolding decode_transactions_def xt_forward_request_new_def xt_forward_request.select_convs
    by (intro collect_map) (simp split: prod.splits)
qed

lemma map_filter_Nil: "List.map_filter f xs = [] \<longleftrightarrow> (\<forall>x\<in>set xs. f x = None)"
  by (induction xs) (auto simp: List.map_filter_def)

section \<open>The peer list: lemmas\<close>

lemma check_unique_iff:
  "check_unique seen ps = Inr () \<longleftrightarrow> distinct (map pe_chain_id ps) \<and> pe_chain_id ` set ps \<inter> seen = {}"
  by (induction seen ps rule: check_unique.induct) auto

text \<open>An accepted list has one entry per chain, so that the sender's address table keeps all of them.\<close>

lemma peer_entries_distinct: "peer_entries ps = Inr qs \<longleftrightarrow> qs = ps \<and> distinct (map pe_chain_id ps)"
  using check_unique_iff[of "{}" ps] by (auto simp: peer_entries_def split: sum.splits)

lemma fold_other:
  "c \<notin> pe_chain_id ` set ps \<Longrightarrow>
   hm_get (fold (\<lambda>e m. hm_insert (pe_chain_id e) (pe_addr e) m) ps m) c = hm_get m c"
  by (induction ps arbitrary: m) (simp_all add: hm_simps)

lemma fold_entry:
  "distinct (map pe_chain_id ps) \<Longrightarrow> p \<in> set ps \<Longrightarrow>
   hm_get (fold (\<lambda>e m. hm_insert (pe_chain_id e) (pe_addr e) m) ps m) (pe_chain_id p) = Some (pe_addr p)"
proof (induction ps arbitrary: m)
  case (Cons q ps)
  then show ?case
    using fold_other[of "pe_chain_id p" ps "hm_insert (pe_chain_id q) (pe_addr q) m"]
    by (cases "p = q") (simp_all add: hm_simps)
qed simp

lemma sender_knows_peers:
  assumes "peer_entries ps = Inr qs" "p \<in> set ps"
  shows "hm_get (pm_peer_addrs (with_peer_entries H qs)) (pe_chain_id p) = Some (pe_addr p)"
  using assms fold_entry[of ps p "[]"] by (simp add: peer_entries_distinct with_peer_entries_def)

lemma digits_val_snoc: "digits_val (xs @ [c]) = 10 * digits_val xs + (of_char c - 48)"
  by (simp add: digits_val_def)

lemma digits_val_show: "digits_val (show_nat n) = n"
proof (induction n rule: show_nat.induct)
  case (1 n)
  show ?case
  proof (cases "n < 10")
    case True
    then show ?thesis by (simp add: show_nat.simps[of n] digits_val_def of_char_of)
  next
    case False
    then have "show_nat n = show_nat (n div 10) @ [char_of (48 + n mod 10)]" by (simp add: show_nat.simps[of n])
    moreover have "of_char (char_of (48 + n mod 10)) = 48 + n mod 10" by (simp add: of_char_of)
    ultimately show ?thesis using 1 False digits_val_snoc[of "show_nat (n div 10)" "char_of (48 + n mod 10)"] by simp
  qed
qed

lemma show_nat_is_digit: "c \<in> set (show_nat n) \<Longrightarrow> is_digit c"
  using show_nat_digits[of c n] by (simp add: is_digit_def)

lemma parse_show: "parse_u64 (show_u64 c) = Some c"
proof -
  let ?s = "show_nat (unat c)"
  have d: "list_all is_digit ?s" using show_nat_is_digit by (simp add: list_all_iff)
  have "hd ?s \<noteq> CHR ''+''"
    using show_nat_is_digit[of "hd ?s" "unat c"] by (auto simp: is_digit_def Let_def)
  moreover have "unat c < 2 ^ 64" using unsigned_less[of c] by simp
  ultimately show ?thesis using d by (simp add: parse_u64_def show_u64_def digits_val_show)
qed

lemma trim_id:
  assumes "s \<noteq> []" "\<not> is_space (hd s)" "\<not> is_space (last s)"
  shows "trim s = s"
proof -
  have "dropWhile is_space s = s" using assms(1,2) by (cases s) auto
  moreover have "dropWhile is_space (rev s) = rev s"
    using assms(1,3) by (cases s rule: rev_cases) auto
  ultimately show ?thesis by (simp add: trim_def)
qed

text \<open>A printed entry is read back.\<close>

lemma peer_entry_roundtrip:
  assumes "addr \<noteq> []" "\<not> is_space (hd addr)" "\<not> is_space (last addr)"
  shows "peer_entry_from_str (show_u64 c @ ''='' @ addr) = Inr \<lparr>pe_chain_id = c, pe_addr = addr\<rparr>"
proof -
  let ?s = "show_nat (unat c)"
  have e: "x \<noteq> CHR ''=''" "\<not> is_space x" if "x \<in> set ?s" for x
    using show_nat_is_digit[OF that] by (auto simp: is_digit_def is_space_def Let_def)
  have "takeWhile (\<lambda>x. x \<noteq> CHR ''='') (?s @ CHR ''='' # addr) = ?s"
      "dropWhile (\<lambda>x. x \<noteq> CHR ''='') (?s @ CHR ''='' # addr) = CHR ''='' # addr"
    using e(1) by (simp_all add: takeWhile_append2 dropWhile_append2)
  moreover have "trim ?s = ?s" using e(2)[of "hd ?s"] e(2)[of "last ?s"] by (intro trim_id) simp_all
  ultimately show ?thesis
    using parse_show[of c] trim_id[OF assms] assms(1) by (simp add: peer_entry_from_str_def show_u64_def)
qed

end
