(* ===== verification/Framing.thy ===== *)
theory Framing
  imports Primitives
begin

text \<open>
  The length-prefixed wire format, \<open>net/transport/src/framing.rs\<close>, the transport
  error type \<open>net/transport/src/error.rs\<close>, and the accept and frame loops of the QUIC
  server, \<open>net/transport/src/server.rs\<close>, on the bytes of finished streams.  The locale \<open>frame_codec\<close> states what a frame codec promises to the code
  that reads a stream.
\<close>

section \<open>Model\<close>

datatype transport_error =
    ConnectionClosed
  | ConnectionRefused string
  | Timeout
  | Tls string
  | Quic string
  | Codec string
  | MessageTooLarge nat nat
  | Io string
  | TransportOther string

record length_prefix_codec =
  codec_max_message_size :: nat

definition codec_new :: "nat \<Rightarrow> length_prefix_codec" where
  "codec_new max_message_size = \<lparr>codec_max_message_size = max_message_size\<rparr>"

definition codec_default :: length_prefix_codec where
  "codec_default = codec_new (4 * 1024 * 1024)"

text \<open>The cast of a length to \<open>u32\<close> keeps its low 32 bits, as \<open>be_bytes 4\<close> does.\<close>

definition encode :: "length_prefix_codec \<Rightarrow> bytes \<Rightarrow> (transport_error, bytes) result" where
  "encode codec payload =
    (if length payload > codec_max_message_size codec
     then Inl (MessageTooLarge (length payload) (codec_max_message_size codec))
     else Inr (be_bytes 4 (length payload) @ payload))"

definition decode_length :: "length_prefix_codec \<Rightarrow> bytes \<Rightarrow> (transport_error, nat) result" where
  "decode_length codec header =
    (let len = be_val header in
     if len > codec_max_message_size codec then Inl (MessageTooLarge len (codec_max_message_size codec))
     else Inr len)"

definition decode_frame ::
  "length_prefix_codec \<Rightarrow> bytes \<Rightarrow> (transport_error, bytes option) result \<times> bytes" where
  "decode_frame codec buf =
    (if length buf < 4 then (Inr None, buf)
     else
       let len = be_val (take 4 buf) in
       if len > codec_max_message_size codec
       then (Inl (MessageTooLarge len (codec_max_message_size codec)), buf)
       else if length buf < 4 + len then (Inr None, buf)
       else let buf = drop 4 buf in (Inr (Some (take len buf)), drop len buf))"

text \<open>
  The loop of \<open>handle_connection\<close> on a stream that carries the given bytes and is
  then finished by the sender: the payloads handed to the handler, and the result.
  A read of the header past the end is the normal end of the stream, a read of the
  payload past the end is an error, whose text \<open>early\<close> is the display form of the
  QUIC library for the number of bytes read.
\<close>

function serve_stream ::
  "(nat \<Rightarrow> string) \<Rightarrow> length_prefix_codec \<Rightarrow> bytes \<Rightarrow> bytes list \<times> (transport_error, unit) result" where
  "serve_stream early codec stream =
    (if length stream < 4 then ([], Inr ())
     else case decode_length codec (take 4 stream) of
       Inl err \<Rightarrow> ([], Inl err)
     | Inr len \<Rightarrow>
         (let rest = drop 4 stream in
          if length rest < len then ([], Inl (Quic (early (length rest))))
          else let (handled, res) = serve_stream early codec (drop len rest)
               in (take len rest # handled, res)))"
  by auto
termination by (relation "measure (length \<circ> snd \<circ> snd)") auto

text \<open>
  A connection is the result of its first \<open>accept_bi\<close>: the bytes of the first
  bidirectional stream the client opened.  The accept loop serves every incoming
  connection in a task of its own; the model returns what each task handed to the handler.
\<close>

type_synonym incoming = "(string, (string, bytes) result) result"

definition handle_connection ::
  "(nat \<Rightarrow> string) \<Rightarrow> length_prefix_codec \<Rightarrow> (string, bytes) result \<Rightarrow> bytes list \<times> (transport_error, unit) result" where
  "handle_connection early codec accept_bi =
    (case accept_bi of
       Inl e \<Rightarrow> ([], Inl (Quic e))
     | Inr recv \<Rightarrow> serve_stream early codec recv)"

definition accept_loop :: "(nat \<Rightarrow> string) \<Rightarrow> nat \<Rightarrow> incoming list \<Rightarrow> bytes list list" where
  "accept_loop early max_message_size incoming =
    (let codec = codec_new max_message_size in
     map (\<lambda>i. case i of
           Inr conn \<Rightarrow> fst (handle_connection early codec conn)
         | Inl e \<Rightarrow> []) incoming)"

declare serve_stream.simps [simp del]

section \<open>The contract of a frame codec\<close>

locale frame_codec =
  fixes enc :: "bytes \<Rightarrow> (transport_error, bytes) result"
    and dec :: "bytes \<Rightarrow> (transport_error, bytes option) result \<times> bytes"
  assumes dec_enc: "enc p = Inr f \<Longrightarrow> dec (f @ rest) = (Inr (Some p), rest)"
    and dec_partial: "enc p = Inr f \<Longrightarrow> k < length f \<Longrightarrow> dec (take k f) = (Inr None, take k f)"
begin

lemma prefix_free:
  assumes "enc p = Inr f" "enc q = Inr g" "f @ a = g @ b"
  shows "p = q \<and> a = b"
  using dec_enc[OF assms(1), of a] dec_enc[OF assms(2), of b] assms(3) by simp

lemma enc_inject: "enc p = Inr f \<Longrightarrow> enc q = Inr f \<Longrightarrow> p = q"
  using prefix_free[of p f q f "[]" "[]"] by simp

end

lemma be_bytes_numeral:
  "be_bytes (numeral n) x = be_bytes (pred_numeral n) (x div 256) @ [word_of_nat x]"
  by (subst numeral_eq_Suc) (simp only: be_bytes.simps)

lemma be4: "n < 2 ^ 32 \<Longrightarrow> be_val (be_bytes 4 n) = n"
  by (simp add: be_val_be_bytes)

lemma encode_Inr:
  "encode c p = Inr f \<longleftrightarrow> length p \<le> codec_max_message_size c \<and> f = be_bytes 4 (length p) @ p"
  by (auto simp: encode_def)

lemma codec_roundtrip:
  assumes "codec_max_message_size c < 2 ^ 32" "encode c p = Inr f"
  shows "decode_frame c (f @ rest) = (Inr (Some p), rest)"
  using assms by (simp add: encode_Inr decode_frame_def Let_def be4)

lemma codec_partial:
  assumes "codec_max_message_size c < 2 ^ 32" "encode c p = Inr f" "k < length f"
  shows "decode_frame c (take k f) = (Inr None, take k f)"
proof (cases "k < 4")
  case True
  then show ?thesis using assms(3) by (simp add: decode_frame_def)
next
  case False
  have f: "f = be_bytes 4 (length p) @ p" "length p \<le> codec_max_message_size c"
    using assms(2) by (auto simp: encode_Inr)
  then have "take 4 (take k f) = be_bytes 4 (length p)" using False by (simp add: min_def)
  moreover have "length (take k f) < 4 + length p" "\<not> length (take k f) < 4" using assms(3) f False by auto
  ultimately show ?thesis using assms(1) f by (simp add: decode_frame_def Let_def be4)
qed

text \<open>The default codec, 4 MiB, satisfies the contract.\<close>

lemma default_max: "codec_max_message_size codec_default < 2 ^ 32"
  by (simp add: codec_default_def codec_new_def)

interpretation fc: frame_codec "encode codec_default" "decode_frame codec_default"
  by unfold_locales (rule codec_roundtrip[OF default_max] codec_partial[OF default_max]; assumption)+

lemma serve_stream_frame:
  assumes "codec_max_message_size c < 2 ^ 32" "length p \<le> codec_max_message_size c"
  shows "serve_stream early c (be_bytes 4 (length p) @ p @ rest) =
    (p # fst (serve_stream early c rest), snd (serve_stream early c rest))"
  using assms
  by (subst serve_stream.simps) (simp add: decode_length_def Let_def be4 split: prod.split)

lemma serve_stream_frames:
  assumes "codec_max_message_size c < 2 ^ 32"
    and "list_all (\<lambda>p. length p \<le> codec_max_message_size c) ps"
  shows "serve_stream early c (concat (map (\<lambda>p. be_bytes 4 (length p) @ p) ps)) = (ps, Inr ())"
  using assms(2)
proof (induction ps)
  case Nil
  then show ?case by (simp add: serve_stream.simps)
next
  case (Cons p ps)
  then show ?case using serve_stream_frame[OF assms(1), of p] by simp
qed

section \<open>Properties\<close>

text \<open>C19: for a codec limit below 4 GiB, decoding an encoded frame followed by any bytes returns the
  payload and leaves exactly those bytes in the buffer, and every proper prefix of a frame decodes to
  "incomplete" with the buffer untouched.\<close>

theorem frame_roundtrip:
  assumes "codec_max_message_size c < 2 ^ 32" "encode c p = Inr f"
  shows "decode_frame c (f @ rest) = (Inr (Some p), rest) \<and>
    (\<forall>k. k < length f \<longrightarrow> decode_frame c (take k f) = (Inr None, take k f))"
  using codec_roundtrip[OF assms] codec_partial[OF assms] by blast

theorem frame_roundtrip_witness:
  "decode_frame (codec_new 10) ([0, 0, 0, 2, 8, 9] @ [1, 1]) = (Inr (Some [8, 9]), [1, 1])"
proof -
  have "encode (codec_new 10) [8, 9] = Inr [0, 0, 0, 2, 8, 9]"
    by (simp add: encode_def codec_new_def be_bytes_numeral)
  then show ?thesis by (rule frame_roundtrip[THEN conjunct1, rotated]) (simp add: codec_new_def)
qed

text \<open>The server's frame loop hands the handler exactly the payloads that were framed onto the
  stream, in order, and then ends without error.\<close>

lemma server_handles_all_frames:
  assumes "codec_max_message_size c < 2 ^ 32"
    and "list_all (\<lambda>p. length p \<le> codec_max_message_size c) ps"
  shows "handle_connection early c (Inr (concat (map (\<lambda>p. be_bytes 4 (length p) @ p) ps))) = (ps, Inr ())"
  using serve_stream_frames[OF assms] by (simp add: handle_connection_def)

lemma server_handles_all_frames_example:
  "handle_connection (\<lambda>n. ''finished early'') (codec_new 10) (Inr [0, 0, 0, 1, 5, 0, 0, 0, 0, 0, 0, 0, 2, 6, 7]) =
    ([[5], [], [6, 7]], Inr ())"
  using server_handles_all_frames[of "codec_new 10" "[[5], [], [6, 7]]" "\<lambda>n. ''finished early''"]
  by (simp add: codec_new_def be_bytes_numeral)

text \<open>A length prefix above the limit is refused with the size and the limit before any payload
  byte is consumed, by the buffer decoder, the header decoder and the server loop alike.\<close>

lemma oversize_rejected:
  assumes "4 \<le> length buf" "codec_max_message_size c < be_val (take 4 buf)"
  shows "decode_frame c buf = (Inl (MessageTooLarge (be_val (take 4 buf)) (codec_max_message_size c)), buf) \<and>
    decode_length c (take 4 buf) = Inl (MessageTooLarge (be_val (take 4 buf)) (codec_max_message_size c)) \<and>
    handle_connection early c (Inr buf) = ([], Inl (MessageTooLarge (be_val (take 4 buf)) (codec_max_message_size c)))"
  using assms by (simp add: decode_frame_def decode_length_def handle_connection_def serve_stream.simps[of early c buf] Let_def)

end
