(* ===== verification/Transport_Client.thy ===== *)
theory Transport_Client
  imports Framing
begin

text \<open>
  The QUIC client, \<open>net/transport/src/client.rs\<close>, and its configuration,
  \<open>net/transport/src/config.rs\<close>.

  The QUIC library, name resolution and the timer are the functions of the record
  \<open>network\<close>.  Every \<open>.await\<close> of the source advances the clock \<open>qc_now\<close> by one, the
  results of the library are indexed by that clock, and \<open>others\<close> is what the other
  tasks that share the client do to its two shared fields, the connection and the
  connected flag, while this task waits.  A connection is represented by its
  \<open>stable_id\<close>.  The client's own actions are recorded in \<open>qc_log\<close>.
\<close>

section \<open>Model\<close>

record client_config =
  cc_addr :: string
  cc_client_id :: string
  cc_reconnect_delay :: u64
  cc_max_retries :: u32
  cc_max_message_size :: nat
  cc_ping_interval :: u64

definition client_config_default :: client_config where
  "client_config_default = \<lparr>cc_addr = '''', cc_client_id = '''', cc_reconnect_delay = 5,
     cc_max_retries = 10, cc_max_message_size = 4 * 1024 * 1024, cc_ping_interval = 15\<rparr>"

record server_config =
  sc_listen_addr :: string
  sc_max_message_size :: nat

definition server_config_default :: server_config where
  "server_config_default = \<lparr>sc_listen_addr = ''0.0.0.0:8080'', sc_max_message_size = 4 * 1024 * 1024\<rparr>"

type_synonym conn = nat
type_synonym stream = nat

text \<open>A write error with its display form, and for a lost connection the display form of the cause;
  a read error by the cases the client distinguishes.\<close>

datatype write_error = WriteConnectionLost string string | WriteOther string

fun show_write_error :: "write_error \<Rightarrow> string" where
  "show_write_error (WriteConnectionLost e cause) = e"
| "show_write_error (WriteOther e) = e"

datatype read_exact_error = ReadConnectionLost | FinishedEarly nat | ReadOther

record network =
  lookup_host :: "nat \<Rightarrow> string \<Rightarrow> (string, string list) result"
  endpoint_connect :: "nat \<Rightarrow> string \<Rightarrow> (string, unit) result"
  established :: "nat \<Rightarrow> string \<Rightarrow> (string, conn) result"
  open_bi :: "nat \<Rightarrow> conn \<Rightarrow> (string, stream) result"
  write_all :: "nat \<Rightarrow> stream \<Rightarrow> bytes \<Rightarrow> (write_error, unit) result"
  finish :: "nat \<Rightarrow> stream \<Rightarrow> (string, unit) result"
  accept_uni :: "nat \<Rightarrow> conn \<Rightarrow> (string, stream) result"
  read_exact :: "nat \<Rightarrow> stream \<Rightarrow> nat \<Rightarrow> (read_exact_error, bytes) result"
  others :: "nat \<Rightarrow> conn option \<times> bool \<Rightarrow> conn option \<times> bool"

datatype client_event =
    Dialed string
  | Identified conn bytes
  | Wrote stream bytes bool
  | Finished stream bool
  | Closed conn string
  | Slept u64

record quic_client =
  qc_config :: client_config
  qc_codec :: length_prefix_codec
  qc_connection :: "conn option"
  qc_connected :: bool
  qc_now :: nat
  qc_log :: "client_event list"

definition quic_client_new :: "client_config \<Rightarrow> quic_client" where
  "quic_client_new config = \<lparr>qc_config = config, qc_codec = codec_new (cc_max_message_size config),
     qc_connection = None, qc_connected = False, qc_now = 0, qc_log = []\<rparr>"

definition keep_alive :: "client_config \<Rightarrow> u64 option" where
  "keep_alive config = (if cc_ping_interval config = 0 then None else Some (cc_ping_interval config))"

definition await :: "network \<Rightarrow> quic_client \<Rightarrow> quic_client" where
  "await N st =
    (let (c, f) = others N (qc_now st) (qc_connection st, qc_connected st)
     in st\<lparr>qc_connection := c, qc_connected := f, qc_now := Suc (qc_now st)\<rparr>)"

definition note_event :: "client_event \<Rightarrow> quic_client \<Rightarrow> quic_client" where
  "note_event e st = st\<lparr>qc_log := qc_log st @ [e]\<rparr>"

definition mark_disconnected :: "network \<Rightarrow> conn option \<Rightarrow> quic_client \<Rightarrow> quic_client" where
  "mark_disconnected N expected_conn_id st =
    (let st = await N st;
         should_clear = (case (expected_conn_id, qc_connection st) of
           (Some i, Some conn) \<Rightarrow> conn = i
         | (Some i, None) \<Rightarrow> False
         | (None, _) \<Rightarrow> True)
     in if \<not> should_clear then st
        else let st = st\<lparr>qc_connected := False\<rparr>
             in case qc_connection st of
                  Some conn \<Rightarrow> note_event (Closed conn ''connection lost'') (st\<lparr>qc_connection := None\<rparr>)
                | None \<Rightarrow> st)"

definition current_connection :: "network \<Rightarrow> quic_client \<Rightarrow> conn option \<times> quic_client" where
  "current_connection N st = (let st = await N st in (qc_connection st, st))"

text \<open>The last step of a successful connect: the new connection replaces the old one.\<close>

definition install_connection :: "network \<Rightarrow> conn \<Rightarrow> quic_client \<Rightarrow> quic_client" where
  "install_connection N conn st =
    (let st = await N st;
         st = (case qc_connection st of
                 Some old \<Rightarrow> note_event (Closed old ''replaced connection'') (st\<lparr>qc_connection := Some conn\<rparr>)
               | None \<Rightarrow> st\<lparr>qc_connection := Some conn\<rparr>)
     in st\<lparr>qc_connected := True\<rparr>)"

definition identify :: "network \<Rightarrow> conn \<Rightarrow> quic_client \<Rightarrow> (transport_error, unit) result \<times> quic_client" where
  "identify N conn st =
    (case (open_bi N (qc_now st) conn, await N st) of
       (Inl e, st) \<Rightarrow> (Inl (Quic e), st)
     | (Inr id_stream, st) \<Rightarrow>
    (case encode (qc_codec st) (as_bytes (cc_client_id (qc_config st))) of
       Inl e \<Rightarrow> (Inl e, st)
     | Inr id_frame \<Rightarrow>
    (case (write_all N (qc_now st) id_stream id_frame, await N st) of
       (Inl e, st) \<Rightarrow> (Inl (Quic (show_write_error e)), st)
     | (Inr _, st) \<Rightarrow>
    (case finish N (qc_now st) id_stream of
       Inl e \<Rightarrow> (Inl (Quic e), st)
     | Inr _ \<Rightarrow> (Inr (), note_event (Identified conn id_frame) st)))))"

definition dial :: "network \<Rightarrow> quic_client \<Rightarrow> (transport_error, conn) result \<times> quic_client" where
  "dial N st =
    (let addr = cc_addr (qc_config st) in
     case (lookup_host N (qc_now st) addr, await N st) of
       (Inl e, st) \<Rightarrow> (Inl (ConnectionRefused e), st)
     | (Inr [], st) \<Rightarrow> (Inl (ConnectionRefused (''no resolved address for '' @ addr)), st)
     | (Inr (a # _), st) \<Rightarrow>
         (let st = note_event (Dialed a) st in
          case endpoint_connect N (qc_now st) a of
            Inl e \<Rightarrow> (Inl (Quic e), st)
          | Inr _ \<Rightarrow>
              (case established N (qc_now st) a of
                 Inl e \<Rightarrow> (Inl (Quic e), await N st)
               | Inr conn \<Rightarrow> (Inr conn, await N st))))"

definition connect_once_locked :: "network \<Rightarrow> quic_client \<Rightarrow> (transport_error, unit) result \<times> quic_client" where
  "connect_once_locked N st =
    (let st = await N st in
     if qc_connection st \<noteq> None then (Inr (), st)
     else case dial N st of
       (Inl e, st) \<Rightarrow> (Inl e, st)
     | (Inr conn, st) \<Rightarrow>
         (case identify N conn st of
            (Inl e, st) \<Rightarrow> (Inl e, st)
          | (Inr _, st) \<Rightarrow> (Inr (), install_connection N conn st)))"

definition connect :: "network \<Rightarrow> quic_client \<Rightarrow> (transport_error, unit) result \<times> quic_client" where
  "connect N st = connect_once_locked N (await N st)"

fun connect_loop :: "network \<Rightarrow> nat \<Rightarrow> quic_client \<Rightarrow> bool \<times> quic_client" where
  "connect_loop N 0 st = (False, st)"
| "connect_loop N (Suc n) st =
    (case connect N st of
       (Inr _, st) \<Rightarrow> (True, st)
     | (Inl e, st) \<Rightarrow> connect_loop N n (await N (note_event (Slept (cc_reconnect_delay (qc_config st))) st)))"

definition max_attempts :: "client_config \<Rightarrow> u32" where
  "max_attempts config = (if cc_max_retries config = 0 then - 1 else cc_max_retries config)"

definition connect_with_retry :: "network \<Rightarrow> quic_client \<Rightarrow> (transport_error, unit) result \<times> quic_client" where
  "connect_with_retry N st =
    (case current_connection N st of
       (Some _, st) \<Rightarrow> (Inr (), st)
     | (None, st) \<Rightarrow>
         (let max = max_attempts (qc_config st) in
          case connect_loop N (unat max) st of
            (True, st) \<Rightarrow> (Inr (), st)
          | (False, st) \<Rightarrow>
              (Inl (ConnectionRefused (''failed after '' @ show_nat (unat max) @ '' attempts'')), st)))"

definition ensure_connected :: "network \<Rightarrow> quic_client \<Rightarrow> (transport_error, conn) result \<times> quic_client" where
  "ensure_connected N st =
    (case current_connection N st of
       (Some conn, st) \<Rightarrow> (Inr conn, st)
     | (None, st) \<Rightarrow>
         (case connect_with_retry N st of
            (Inl e, st) \<Rightarrow> (Inl e, st)
          | (Inr _, st) \<Rightarrow>
              (case current_connection N st of
                 (Some conn, st) \<Rightarrow> (Inr conn, st)
               | (None, st) \<Rightarrow> (Inl ConnectionClosed, st))))"

text \<open>One pass of the loop of \<open>send\<close>: \<open>None\<close> asks for the next attempt.\<close>

definition send_attempt ::
  "network \<Rightarrow> bytes \<Rightarrow> nat \<Rightarrow> quic_client \<Rightarrow> (transport_error, unit) result option \<times> quic_client" where
  "send_attempt N data attempt st =
    (case ensure_connected N st of
       (Inl e, st) \<Rightarrow> (Some (Inl e), st)
     | (Inr conn, st) \<Rightarrow>
    (case (open_bi N (qc_now st) conn, await N st) of
       (Inl e, st) \<Rightarrow>
         (let st = mark_disconnected N (Some conn) st
          in if attempt = 1 then (None, st) else (Some (Inl (Quic e)), st))
     | (Inr stream, st) \<Rightarrow>
    (case encode (qc_codec st) data of
       Inl e \<Rightarrow> (Some (Inl e), st)
     | Inr frame \<Rightarrow>
    (case (write_all N (qc_now st) stream frame, await N st) of
       (Inl (WriteConnectionLost _ e), st) \<Rightarrow>
         (let st = mark_disconnected N (Some conn) (note_event (Wrote stream frame False) st)
          in if attempt = 1 then (None, st) else (Some (Inl (Quic e)), st))
     | (Inl (WriteOther e), st) \<Rightarrow> (Some (Inl (Quic e)), note_event (Wrote stream frame False) st)
     | (Inr _, st) \<Rightarrow>
         (let st = note_event (Wrote stream frame True) st in
          case finish N (qc_now st) stream of
            Inr _ \<Rightarrow> (Some (Inr ()), note_event (Finished stream True) st)
          | Inl e \<Rightarrow>
              (let st = mark_disconnected N (Some conn) (note_event (Finished stream False) st)
               in if attempt = 1 then (None, st) else (Some (Inl (Quic e)), st)))))))"

fun send_loop :: "network \<Rightarrow> bytes \<Rightarrow> nat list \<Rightarrow> quic_client \<Rightarrow> (transport_error, unit) result \<times> quic_client" where
  "send_loop N data [] st = (Inl ConnectionClosed, st)"
| "send_loop N data (attempt # attempts) st =
    (case send_attempt N data attempt st of
       (Some r, st) \<Rightarrow> (r, st)
     | (None, st) \<Rightarrow> send_loop N data attempts st)"

definition send :: "network \<Rightarrow> bytes \<Rightarrow> quic_client \<Rightarrow> (transport_error, unit) result \<times> quic_client" where
  "send N data st = send_loop N data [1, 2] st"

text \<open>One pass of the loop of \<open>recv\<close>: \<open>None\<close> continues with the next stream.\<close>

definition recv_step :: "network \<Rightarrow> quic_client \<Rightarrow> (transport_error, bytes) result option \<times> quic_client" where
  "recv_step N st =
    (case ensure_connected N st of
       (Inl e, st) \<Rightarrow> (Some (Inl e), st)
     | (Inr conn, st) \<Rightarrow>
    (case (accept_uni N (qc_now st) conn, await N st) of
       (Inl e, st) \<Rightarrow> (None, mark_disconnected N (Some conn) st)
     | (Inr recv_stream, st) \<Rightarrow>
    (case (read_exact N (qc_now st) recv_stream 4, await N st) of
       (Inl ReadConnectionLost, st) \<Rightarrow> (None, mark_disconnected N (Some conn) st)
     | (Inl (FinishedEarly n), st) \<Rightarrow> (None, st)
     | (Inl ReadOther, st) \<Rightarrow> (None, st)
     | (Inr header, st) \<Rightarrow>
    (case decode_length (qc_codec st) header of
       Inl e \<Rightarrow> (Some (Inl e), st)
     | Inr len \<Rightarrow>
    (case (read_exact N (qc_now st) recv_stream len, await N st) of
       (Inr payload, st) \<Rightarrow> (Some (Inr payload), st)
     | (Inl ReadConnectionLost, st) \<Rightarrow> (None, mark_disconnected N (Some conn) st)
     | (Inl (FinishedEarly n), st) \<Rightarrow> (None, st)
     | (Inl ReadOther, st) \<Rightarrow> (None, st))))))"

partial_function (option) recv ::
  "network \<Rightarrow> quic_client \<Rightarrow> ((transport_error, bytes) result \<times> quic_client) option" where
  "recv N st =
    (case recv_step N st of
       (Some r, st) \<Rightarrow> Some (r, st)
     | (None, st) \<Rightarrow> recv N st)"

definition close_client :: "network \<Rightarrow> quic_client \<Rightarrow> (transport_error, unit) result \<times> quic_client" where
  "close_client N st = (Inr (), mark_disconnected N None (await N st))"

definition is_connected :: "quic_client \<Rightarrow> bool" where
  "is_connected st = qc_connected st"

fun of_send :: "client_event \<Rightarrow> bool" where
  "of_send (Wrote s f ok) = True"
| "of_send (Finished s ok) = True"
| "of_send _ = False"

section \<open>Relations kept by the client's actions\<close>

text \<open>
  The contract between the atomic actions of a client task (waiting, recording an event of the set
  \<open>E\<close>, dropping and installing the connection) and the operations built from them: a reflexive and
  transitive relation kept by the actions is kept by every operation.
\<close>

locale client_actions =
  fixes N :: network
    and R :: "quic_client \<Rightarrow> quic_client \<Rightarrow> bool"
    and E :: "client_event \<Rightarrow> bool"
  assumes R_refl: "R st st"
    and R_trans: "R a b \<Longrightarrow> R b c \<Longrightarrow> R a c"
    and R_await: "R st (await N st)"
    and R_note: "E e \<Longrightarrow> R st (note_event e st)"
    and R_drop: "R st (st\<lparr>qc_connected := False, qc_connection := None\<rparr>)"
    and R_install: "R st (st\<lparr>qc_connection := Some conn, qc_connected := True\<rparr>)"
    and E_closed: "E (Closed conn why)"
begin

lemma after_await: "R (await N st) b \<Longrightarrow> R st b"
  using R_await R_trans by blast

lemma then_await: "R st b \<Longrightarrow> R st (await N b)"
  using R_await R_trans by blast

lemma then_note: "R st b \<Longrightarrow> E e \<Longrightarrow> R st (note_event e b)"
  using R_note R_trans by blast

lemma mark_keeps: "R st (mark_disconnected N i st)"
proof -
  let ?s = "await N st"
  let ?d = "?s\<lparr>qc_connected := False, qc_connection := None\<rparr>"
  have d: "R st ?d" by (rule after_await[OF R_drop])
  have "R st (note_event (Closed c why) ?d)" for c why by (rule then_note[OF d E_closed])
  moreover have "mark_disconnected N i st \<in> {?s, ?d} \<union> range (\<lambda>c. note_event (Closed c ''connection lost'') ?d)"
    by (auto simp: mark_disconnected_def Let_def split: option.splits)
  ultimately show ?thesis using d R_await by auto
qed

lemma then_mark: "R st b \<Longrightarrow> R st (mark_disconnected N i b)"
  using mark_keeps R_trans by blast

lemma current_keeps: "current_connection N st = (c, st') \<Longrightarrow> R st st'"
  by (auto simp: current_connection_def Let_def R_await)

lemma install_keeps: "R st (install_connection N conn st)"
proof -
  let ?s = "await N st"
  let ?i = "?s\<lparr>qc_connection := Some conn, qc_connected := True\<rparr>"
  have i: "R st ?i" by (rule after_await[OF R_install])
  have "R st (note_event (Closed c why) ?i)" for c why by (rule then_note[OF i E_closed])
  moreover have "install_connection N conn st =
    (case qc_connection ?s of None \<Rightarrow> ?i | Some old \<Rightarrow> note_event (Closed old ''replaced connection'') ?i)"
    by (auto simp: install_connection_def Let_def note_event_def split: option.splits)
  ultimately show ?thesis using i by (simp split: option.splits)
qed

lemma identify_keeps:
  assumes "\<And>c f. E (Identified c f)" "identify N conn st = (r, st')"
  shows "R st st'"
  using assms(2) by (auto simp: identify_def split: sum.splits
    intro!: then_note[OF _ assms(1)] then_await R_refl)

lemma dial_keeps:
  assumes "\<And>a. E (Dialed a)" "dial N st = (r, st')"
  shows "R st st'"
  using assms(2) by (auto simp: dial_def Let_def split: sum.splits list.splits
    intro!: then_note[OF _ assms(1)] then_await R_refl)

end

locale client_task = client_actions +
  assumes E_quiet: "\<not> of_send e \<Longrightarrow> E e"
begin

lemma connect_keeps: "connect N st = (r, st') \<Longrightarrow> R st st'"
proof -
  assume c: "connect N st = (r, st')"
  let ?s = "await N (await N st)"
  have s: "R st ?s" by (rule then_await[OF R_await])
  show "R st st'"
  proof (cases "qc_connection ?s = None")
    case True
    obtain rd sd where d: "dial N ?s = (rd, sd)" by fastforce
    have sd: "R st sd" using s dial_keeps[OF _ d] E_quiet R_trans by fastforce
    show ?thesis
    proof (cases rd)
      case (Inl e)
      then show ?thesis using c True d sd by (simp add: connect_def connect_once_locked_def)
    next
      case (Inr conn)
      obtain ri si where i: "identify N conn sd = (ri, si)" by fastforce
      have "R st si" using sd identify_keeps[OF _ i] E_quiet R_trans by fastforce
      then show ?thesis using c True d Inr i install_keeps[of si conn] R_trans
        by (auto simp: connect_def connect_once_locked_def split: sum.splits)
    qed
  next
    case False
    then show ?thesis using c s by (auto simp: connect_def connect_once_locked_def)
  qed
qed

lemma connect_loop_keeps: "connect_loop N n st = (r, st') \<Longrightarrow> R st st'"
proof (induction n arbitrary: st)
  case (Suc n)
  obtain rc sc where c: "connect N st = (rc, sc)" by fastforce
  have sc: "R st sc" by (rule connect_keeps[OF c])
  have "R st (await N (note_event (Slept d) sc))" for d
    by (rule then_await[OF then_note[OF sc]]) (simp add: E_quiet)
  then show ?case using Suc c sc R_trans by (fastforce split: sum.splits)
qed (simp add: R_refl)

lemma retry_keeps: "connect_with_retry N st = (r, st') \<Longrightarrow> R st st'"
  unfolding connect_with_retry_def Let_def
  by (auto split: prod.splits option.splits bool.splits dest!: current_keeps connect_loop_keeps intro: R_trans)

lemma ensure_keeps: "ensure_connected N st = (r, st') \<Longrightarrow> R st st'"
  unfolding ensure_connected_def
  by (auto split: prod.splits option.splits sum.splits dest!: current_keeps retry_keeps intro: R_trans)

lemma recv_step_keeps: "recv_step N st = (r, st') \<Longrightarrow> R st st'"
proof -
  assume r: "recv_step N st = (r, st')"
  obtain re se where e: "ensure_connected N st = (re, se)" by fastforce
  have "R st se" by (rule ensure_keeps[OF e])
  then show ?thesis using r e unfolding recv_step_def
    by (auto split: sum.splits read_exact_error.splits intro!: then_await then_mark)
qed

lemma recv_keeps:
  assumes "recv N st = Some x"
  shows "R st (snd x)"
proof -
  have "N = N \<longrightarrow> R st (snd x)"
  proof (rule recv.raw_induct[where P = "\<lambda>M st x. M = N \<longrightarrow> R st (snd x)", OF _ assms])
    fix f M st x
    assume 1: "\<And>M st x. f M st = Some x \<Longrightarrow> M = N \<longrightarrow> R st (snd x)"
      "(case recv_step M st of (Some r, st) \<Rightarrow> Some (r, st) | (None, st) \<Rightarrow> f M st) = Some x"
    obtain rs ss where e: "recv_step M st = (rs, ss)" by fastforce
    show "M = N \<longrightarrow> R st (snd x)"
    proof (cases rs)
      case None
      then have "f M ss = Some x" using 1(2) e by simp
      then show ?thesis using 1(1) recv_step_keeps[of st rs ss] e R_trans by blast
    next
      case (Some r)
      then show ?thesis using 1(2) e recv_step_keeps[of st rs ss] by auto
    qed
  qed
  then show ?thesis by simp
qed

lemma close_keeps: "close_client N st = (r, st') \<Longrightarrow> R st st'"
  by (auto simp: close_client_def intro: after_await mark_keeps)

end

text \<open>A relation that also tolerates the events of \<open>send\<close> is kept by \<open>send\<close>.\<close>

locale client_sender = client_task +
  assumes E_any: "E e"
begin

lemma send_attempt_keeps:
  assumes "send_attempt N data k st = (r, st')"
  shows "R st st'"
proof -
  obtain re se where e: "ensure_connected N st = (re, se)" by fastforce
  have "R st se" by (rule ensure_keeps[OF e])
  then show ?thesis using assms e
    by (auto simp: send_attempt_def Let_def split: sum.splits write_error.splits if_splits
      intro!: then_mark then_await then_note E_any)
qed

lemma send_keeps: "send N data st = (r, st') \<Longrightarrow> R st st'"
proof -
  have "send_loop N data ks st = (r, st') \<Longrightarrow> R st st'" for ks
  proof (induction ks arbitrary: st)
    case (Cons k ks)
    obtain ra sa where a: "send_attempt N data k st = (ra, sa)" by fastforce
    have "R st sa" by (rule send_attempt_keeps[OF a])
    then show ?case using Cons a R_trans by (auto split: option.splits)
  qed (simp add: R_refl)
  then show "send N data st = (r, st') \<Longrightarrow> R st st'" unfolding send_def .
qed

end

section \<open>The relations the properties use\<close>

text \<open>The flag reported by \<open>is_connected\<close> agrees with the presence of a connection; the other tasks of
  the client keep this agreement.\<close>

definition flag_ok :: "quic_client \<Rightarrow> bool" where
  "flag_ok st \<longleftrightarrow> (is_connected st \<longleftrightarrow> qc_connection st \<noteq> None)"

definition others_ok :: "network \<Rightarrow> bool" where
  "others_ok N \<longleftrightarrow> (\<forall>t c f. (f \<longleftrightarrow> c \<noteq> None) \<longrightarrow>
     (snd (others N t (c, f)) \<longleftrightarrow> fst (others N t (c, f)) \<noteq> None))"

definition quiet_network :: "network \<Rightarrow> bool" where
  "quiet_network N \<longleftrightarrow> (\<forall>t cf. others N t cf = cf)"

definition writes :: "quic_client \<Rightarrow> (stream \<times> bytes \<times> bool) list" where
  "writes st = List.map_filter (\<lambda>e. case e of Wrote s f ok \<Rightarrow> Some (s, f, ok) | _ \<Rightarrow> None) (qc_log st)"

definition dials :: "quic_client \<Rightarrow> nat" where
  "dials st = length (filter (\<lambda>e. case e of Dialed a \<Rightarrow> True | _ \<Rightarrow> False) (qc_log st))"

lemma await_fields [simp]:
  "qc_config (await N st) = qc_config st" "qc_codec (await N st) = qc_codec st" "qc_log (await N st) = qc_log st"
  "qc_now (await N st) = Suc (qc_now st)"
  by (simp_all add: await_def split: prod.splits)

lemma note_fields [simp]:
  "qc_config (note_event e st) = qc_config st" "qc_codec (note_event e st) = qc_codec st"
  "qc_log (note_event e st) = qc_log st @ [e]" "qc_now (note_event e st) = qc_now st"
  "qc_connection (note_event e st) = qc_connection st" "qc_connected (note_event e st) = qc_connected st"
  by (simp_all add: note_event_def)

lemma quiet_await: "quiet_network N \<Longrightarrow> await N st = st\<lparr>qc_now := Suc (qc_now st)\<rparr>"
  by (simp add: await_def quiet_network_def)

lemma writes_note [simp]: "writes (note_event e st) =
    writes st @ (case e of Wrote s f ok \<Rightarrow> [(s, f, ok)] | _ \<Rightarrow> [])"
  by (simp add: writes_def List.map_filter_def split: client_event.splits)

lemma writes_await [simp]: "writes (await N st) = writes st"
  by (simp add: writes_def)

lemma dials_note [simp]: "dials (note_event e st) = dials st + (case e of Dialed a \<Rightarrow> 1 | _ \<Rightarrow> 0)"
  by (simp add: dials_def split: client_event.splits)

lemma dials_await [simp]: "dials (await N st) = dials st"
  by (simp add: dials_def)

lemma flag_await:
  assumes "others_ok N" "flag_ok st"
  shows "flag_ok (await N st)"
proof -
  obtain c f where o: "others N (qc_now st) (qc_connection st, qc_connected st) = (c, f)" by fastforce
  have i: "qc_connected st \<longleftrightarrow> qc_connection st \<noteq> None" using assms(2) by (simp add: flag_ok_def is_connected_def)
  have "f \<longleftrightarrow> c \<noteq> None"
    using assms(1)[unfolded others_ok_def, rule_format, OF i, of "qc_now st"] o by simp
  then show ?thesis using o by (simp add: flag_ok_def is_connected_def await_def)
qed

interpretation flag: client_sender N "\<lambda>st st'. others_ok N \<longrightarrow> flag_ok st \<longrightarrow> flag_ok st'" "\<lambda>e. True" for N
proof unfold_locales
  fix st :: quic_client and conn
  show "others_ok N \<longrightarrow> flag_ok st \<longrightarrow> flag_ok (await N st)" using flag_await by blast
  show "others_ok N \<longrightarrow> flag_ok st \<longrightarrow> flag_ok (st\<lparr>qc_connected := False, qc_connection := None\<rparr>)"
    by (simp add: flag_ok_def is_connected_def)
  show "others_ok N \<longrightarrow> flag_ok st \<longrightarrow> flag_ok (st\<lparr>qc_connection := Some conn, qc_connected := True\<rparr>)"
    by (simp add: flag_ok_def is_connected_def)
  show "others_ok N \<longrightarrow> flag_ok st \<longrightarrow> flag_ok (note_event e st)" for e
    by (simp add: flag_ok_def is_connected_def)
qed blast+

interpretation conf: client_sender N
  "\<lambda>st st'. qc_config st' = qc_config st \<and> qc_codec st' = qc_codec st" "\<lambda>e. True" for N
  by unfold_locales auto

interpretation wr: client_task N "\<lambda>st st'. writes st' = writes st" "\<lambda>e. \<not> of_send e" for N
  by unfold_locales (auto simp: writes_def List.map_filter_def split: client_event.splits)

interpretation di: client_actions N "\<lambda>st st'. dials st' = dials st" "\<lambda>e. \<not> (\<exists>a. e = Dialed a)" for N
  by unfold_locales (auto simp: dials_def split: client_event.splits)

section \<open>Connecting\<close>

lemma dial_once: "dial N st = (r, st') \<Longrightarrow> dials st' \<le> Suc (dials st)"
  by (auto simp: dial_def Let_def split: sum.splits list.splits)

lemma connect_dials_once: "connect N st = (r, st') \<Longrightarrow> dials st' \<le> Suc (dials st)"
  by (auto simp: connect_def connect_once_locked_def Let_def di.install_keeps
    split: if_splits prod.splits sum.splits dest!: dial_once di.identify_keeps[rotated])

lemma connect_loop_dials: "connect_loop N n st = (r, st') \<Longrightarrow> dials st' \<le> dials st + n"
proof (induction n arbitrary: st)
  case (Suc n)
  obtain rc sc where c: "connect N st = (rc, sc)" by fastforce
  show ?case
  proof (cases rc)
    case (Inl e)
    then have "connect_loop N n (await N (note_event (Slept (cc_reconnect_delay (qc_config sc))) sc)) = (r, st')"
      using Suc.prems c by simp
    then show ?thesis using Suc.IH connect_dials_once[OF c] by fastforce
  next
    case (Inr u)
    then show ?thesis using Suc.prems c connect_dials_once[OF c] by simp
  qed
qed simp

text \<open>The state in which attempt \<open>k\<close> starts, when the attempts before it failed.\<close>

fun retry_state :: "network \<Rightarrow> nat \<Rightarrow> quic_client \<Rightarrow> quic_client" where
  "retry_state N 0 st = st"
| "retry_state N (Suc k) st =
    (let sc = snd (connect N (retry_state N k st))
     in await N (note_event (Slept (cc_reconnect_delay (qc_config sc))) sc))"

lemma retry_state_shift:
  "retry_state N (Suc k) st = retry_state N k (retry_state N (Suc 0) st)"
  by (induction k) (simp_all add: Let_def)

lemma connect_loop_iff:
  "fst (connect_loop N n st) \<longleftrightarrow> (\<exists>k<n. \<not> isl (fst (connect N (retry_state N k st))))"
proof (induction n arbitrary: st)
  case (Suc n)
  obtain rc sc where c: "connect N st = (rc, sc)" by fastforce
  show ?case
  proof (cases rc)
    case (Inl e)
    define s1 where "s1 = retry_state N (Suc 0) st"
    have "fst (connect_loop N (Suc n) st) = fst (connect_loop N n s1)"
      using c Inl by (simp add: Let_def s1_def)
    moreover have "retry_state N (Suc k) st = retry_state N k s1" for k
      unfolding s1_def by (rule retry_state_shift)
    moreover have "isl (fst (connect N (retry_state N 0 st)))" using c Inl by simp
    ultimately show ?thesis unfolding Ex_less_Suc2 using Suc.IH[of s1] by (simp only: simp_thms)
  next
    case (Inr u)
    then show ?thesis using c by (auto intro!: exI[of _ 0])
  qed
qed simp

section \<open>Sending\<close>

lemma send_attempt_writes:
  assumes "send_attempt N data k st = (r, st')"
  shows "\<exists>ws. writes st' = writes st @ ws \<and> length ws \<le> 1 \<and>
    (\<forall>(s, f, ok)\<in>set ws. encode (qc_codec st) data = Inr f) \<and>
    (r = Some (Inr ()) \<longrightarrow> (\<exists>s f. ws = [(s, f, True)] \<and> last (qc_log st') = Finished s True))"
proof -
  obtain re se where e: "ensure_connected N st = (re, se)" by fastforce
  have w: "writes se = writes st" and c: "qc_codec se = qc_codec st"
    using wr.ensure_keeps[OF e] conf.ensure_keeps[OF e] by auto
  show ?thesis
  proof (cases re)
    case (Inl err)
    then show ?thesis using assms e w by (auto simp: send_attempt_def)
  next
    case (Inr conn)
    show ?thesis using assms e w c Inr
      by (auto simp: send_attempt_def Let_def wr.mark_keeps split: sum.splits write_error.splits if_splits)
  qed
qed

lemma flag_new: "flag_ok (quic_client_new config)"
  by (simp add: flag_ok_def is_connected_def quic_client_new_def)

section \<open>Receiving\<close>

lemma ensure_quiet:
  assumes "quiet_network N" "qc_connection st = Some c"
  shows "ensure_connected N st = (Inr c, st\<lparr>qc_now := Suc (qc_now st)\<rparr>)"
  using assms by (simp add: ensure_connected_def current_connection_def quiet_await)

lemma recv_step_truncated:
  assumes "quiet_network N" "qc_connection st = Some c"
    and "accept_uni N (qc_now st + 1) c = Inr s" "read_exact N (qc_now st + 2) s 4 = Inl (FinishedEarly k)"
  shows "recv_step N st = (None, st\<lparr>qc_now := qc_now st + 3\<rparr>)"
  using assms by (simp add: recv_step_def ensure_quiet quiet_await numeral_eq_Suc)

lemma recv_step_frame:
  assumes "quiet_network N" "qc_connection st = Some c" "codec_max_message_size (qc_codec st) < 2 ^ 32"
    and "encode (qc_codec st) p = Inr f" "accept_uni N (qc_now st + 1) c = Inr s"
    and "read_exact N (qc_now st + 2) s 4 = Inr (take 4 f)"
    and "read_exact N (qc_now st + 3) s (length p) = Inr (drop 4 f)"
  shows "recv_step N st = (Some (Inr p), st\<lparr>qc_now := qc_now st + 4\<rparr>)"
proof -
  have f: "take 4 f = be_bytes 4 (length p)" "drop 4 f = p" "length p \<le> codec_max_message_size (qc_codec st)"
    using assms(4) by (auto simp: encode_Inr)
  define h where "h = take 4 f"
  have d: "decode_length (qc_codec st) h = Inr (length p)"
    using f assms(3) by (simp add: h_def decode_length_def be4)
  have r: "read_exact N (Suc (Suc (qc_now st))) s 4 = Inr h"
      "read_exact N (Suc (Suc (Suc (qc_now st)))) s (length p) = Inr p" "accept_uni N (Suc (qc_now st)) c = Inr s"
    using assms(5-7) f(2) by (simp_all add: h_def numeral_2_eq_2 numeral_3_eq_3)
  show ?thesis
    by (simp add: recv_step_def ensure_quiet[OF assms(1,2)] quiet_await[OF assms(1)] r d)
qed

section \<open>Properties\<close>

text \<open>The connected flag never disagrees with the connection.  When the other tasks that share the
  client keep the agreement, every operation of this task does, whatever the network answers, so
  \<open>is_connected\<close> is true exactly while a connection is held; a new client starts in agreement.\<close>

lemma client_flag_consistent:
  assumes "others_ok N" "flag_ok st"
  shows "flag_ok (quic_client_new config) \<and> flag_ok (snd (connect N st)) \<and>
    flag_ok (snd (connect_with_retry N st)) \<and> flag_ok (snd (send N data st)) \<and>
    (\<forall>r. recv N st = Some r \<longrightarrow> flag_ok (snd r)) \<and> flag_ok (snd (close_client N st)) \<and>
    flag_ok (mark_disconnected N i st)"
  using assms flag_new flag.connect_keeps[of N st] flag.retry_keeps[of N st] flag.recv_keeps[of N st]
    flag.send_keeps[of N data st] flag.close_keeps[of N st] flag.mark_keeps[of N st i]
  by (metis prod.collapse)

definition demo_network :: network where
  "demo_network = \<lparr>lookup_host = \<lambda>t a. Inr [a], endpoint_connect = \<lambda>t a. Inr (),
     established = \<lambda>t a. if t < 9 then Inl ''timed out'' else Inr t, open_bi = \<lambda>t c. Inr (c + t),
     write_all = \<lambda>t s f. Inr (), finish = \<lambda>t s. Inr (),
     accept_uni = \<lambda>t c. Inr t,
     read_exact = \<lambda>t s n. if s < 4 then Inl (FinishedEarly 1) else if n = 4 then Inr [0, 0, 0, 2] else Inr [7, 8],
     others = \<lambda>t cf. cf\<rparr>"

definition demo_client :: quic_client where
  "demo_client = quic_client_new \<lparr>cc_addr = ''sp:1'', cc_client_id = ''7'', cc_reconnect_delay = 5,
     cc_max_retries = 10, cc_max_message_size = 100, cc_ping_interval = 15\<rparr>"

lemma demo_quiet: "quiet_network demo_network" "others_ok demo_network"
  by (simp_all add: quiet_network_def others_ok_def demo_network_def)

lemma client_flag_consistent_example:
  "flag_ok (snd (send demo_network [1] demo_client)) \<and> flag_ok (snd (close_client demo_network demo_client))"
  using client_flag_consistent[OF demo_quiet(2), of demo_client] by (simp add: demo_client_def flag_new)







end
