(* ===== verification/Server.thy ===== *)
theory Server
  imports Interleaving Peers Transport_Client
begin

text \<open>
  The entry points of a sidecar: the HTTP handlers of \<open>coordinator/server/src/handlers\<close>, the
  router \<open>router.rs\<close>, the shared state \<open>state.rs\<close> and the error mapping \<open>error.rs\<close>; the
  dispatch of publisher messages \<open>handlers/publisher.rs\<close>; and the publisher connection
  \<open>net/publisher/src/connection.rs\<close> over the QUIC client.

  A handler takes its decoded request, as the web framework hands it over, and returns its
  response or a server error.  The protobuf decoder is the argument \<open>decode\<close> of the handlers
  that call it, with the display form of its error.
\<close>

section \<open>Model\<close>

subsection \<open>Errors and state\<close>

datatype server_error = BadRequest string | NotFound string | Internal string

fun into_response :: "server_error \<Rightarrow> u32 \<times> string" where
  "into_response (BadRequest msg) = (400, msg)"
| "into_response (NotFound msg) = (404, msg)"
| "into_response (Internal msg) = (500, msg)"

definition server_error_from :: "externals \<Rightarrow> coordinator_error \<Rightarrow> server_error" where
  "server_error_from X err =
    (case err of
       InstanceNotFound i \<Rightarrow> NotFound (''XT not found: '' @ i)
     | NoTransactions \<Rightarrow> BadRequest ''no transactions provided''
     | PublisherNotConnected \<Rightarrow> Internal ''publisher not connected''
     | other \<Rightarrow> Internal (show_coordinator_error X other))"

record app_state =
  app_coordinator :: coordinator
  app_permission_engine :: "permission_engine option"

definition app_state_new :: "coordinator \<Rightarrow> app_state" where
  "app_state_new C = \<lparr>app_coordinator = C, app_permission_engine = None\<rparr>"

definition with_permission_engine :: "permission_engine \<Rightarrow> app_state \<Rightarrow> app_state" where
  "with_permission_engine e A = A\<lparr>app_permission_engine := Some e\<rparr>"

definition is_ready :: "app_state \<Rightarrow> bool" where
  "is_ready A = (case app_permission_engine A of None \<Rightarrow> True | Some e \<Rightarrow> engine_is_ready e)"

definition handle_ready :: "app_state \<Rightarrow> u32 \<times> string \<times> string option" where
  "handle_ready A =
    (if is_ready A then (200, ''ready'', None)
     else (503, ''not ready'', Some ''permission config unavailable''))"

subsection \<open>XT submission and status\<close>

fun trim_start_0x :: "string \<Rightarrow> string" where
  "trim_start_0x (a # b # s) =
    (if a = CHR ''0'' \<and> b = CHR ''x'' then trim_start_0x s else a # b # s)"
| "trim_start_0x s = s"

fun decode_submitted ::
  "externals \<Rightarrow> (string \<Rightarrow> string) \<Rightarrow> (u64 \<times> string list) list \<Rightarrow> raw_txs \<Rightarrow> (server_error, raw_txs) result" where
  "decode_submitted X from_hex_error [] txs = Inr txs"
| "decode_submitted X from_hex_error ((cid, hex_txs) # rest) txs =
    (case collect (\<lambda>hex_tx. decode_hex X from_hex_error (trim_start_0x hex_tx)) hex_txs of
       Inl e \<Rightarrow> Inl (BadRequest (''invalid hex: '' @ e))
     | Inr decoded \<Rightarrow>
         decode_submitted X from_hex_error rest (if decoded \<noteq> [] then hm_insert cid decoded txs else txs))"

definition handle_submit_xt ::
  "(string \<Rightarrow> string) \<Rightarrow> app_state \<Rightarrow> waiter \<Rightarrow> submission_outcome \<Rightarrow> (u64, string list) hmap \<Rightarrow> sys
    \<Rightarrow> (server_error, string \<times> string) result \<times> sys" where
  "handle_submit_xt from_hex_error A wt outcome req w =
    (let C = app_coordinator A in
     case decode_submitted (ext C) from_hex_error req [] of
       Inl e \<Rightarrow> (Inl e, w)
     | Inr txs \<Rightarrow>
         if txs = [] then (Inl (BadRequest ''no transactions''), w)
         else case submit_xt C wt outcome txs w of
                (Inl err, w) \<Rightarrow> (Inl (server_error_from (ext C) err), w)
              | (Inr i, w) \<Rightarrow> (Inr (i, ''submitted''), w))"

definition handle_get_xt_status ::
  "app_state \<Rightarrow> instance_id \<Rightarrow> sys \<Rightarrow> (server_error, xt_status_response) result" where
  "handle_get_xt_status A i w =
    (case get_xt_status i (sys_state w) of
       Inl err \<Rightarrow> Inl (server_error_from (ext (app_coordinator A)) err)
     | Inr resp \<Rightarrow> Inr resp)"

subsection \<open>Peer, builder and permission endpoints\<close>

definition answer_ok ::
  "app_state \<Rightarrow> (coordinator_error, unit) result \<times> sys \<Rightarrow> (server_error, string) result \<times> sys" where
  "answer_ok A r =
    (case r of
       (Inl err, w) \<Rightarrow> (Inl (server_error_from (ext (app_coordinator A)) err), w)
     | (Inr _, w) \<Rightarrow> (Inr ''ok'', w))"

definition handle_forward_xt ::
  "(string \<Rightarrow> string) \<Rightarrow> app_state \<Rightarrow> xt_forward_request \<Rightarrow> sys \<Rightarrow> (server_error, string) result \<times> sys" where
  "handle_forward_xt from_hex_error A req w =
    (let C = app_coordinator A in
     case decode_transactions (ext C) from_hex_error req of
       Inl e \<Rightarrow> (Inl (BadRequest (''invalid transactions: '' @ e)), w)
     | Inr txs \<Rightarrow>
         answer_ok A (handle_forwarded_xt C (fr_instance_id req) txs (fr_origin_chain req) (fr_origin_seq req) w))"

definition handle_peer_vote_request ::
  "app_state \<Rightarrow> vote_request \<Rightarrow> sys \<Rightarrow> (server_error, string) result \<times> sys" where
  "handle_peer_vote_request A req w =
    answer_ok A (handle_peer_vote (app_coordinator A) (vr_instance_id req) (vr_chain_id req) (vr_vote req) w)"

definition handle_mailbox ::
  "(bytes \<Rightarrow> (string, mailbox_message) result) \<Rightarrow> app_state \<Rightarrow> bytes \<Rightarrow> sys \<Rightarrow> (server_error, string) result \<times> sys" where
  "handle_mailbox decode A body w =
    (case decode body of
       Inl e \<Rightarrow> (Inl (BadRequest (''invalid protobuf: '' @ e)), w)
     | Inr msg \<Rightarrow> answer_ok A (handle_mailbox_message (app_coordinator A) msg w))"

definition handle_confirm_included ::
  "app_state \<Rightarrow> instance_id list \<Rightarrow> sys \<Rightarrow> (server_error, string) result \<times> sys" where
  "handle_confirm_included A ids w = answer_ok A (confirm_included_xts (app_coordinator A) ids w)"

record check_tx_request =
  ct_from :: string
  ct_is_create :: bool
  ct_has_value :: bool

record check_tx_response =
  cr_allowed :: bool
  cr_reason :: "string option"
  cr_config_version :: "u64 option"

definition handle_check_tx ::
  "(string \<Rightarrow> address option) \<Rightarrow> app_state \<Rightarrow> check_tx_request \<Rightarrow> (server_error, check_tx_response) result" where
  "handle_check_tx parse_addr A req =
    (case app_permission_engine A of
       None \<Rightarrow> Inl (Internal ''permission enforcement not configured'')
     | Some e \<Rightarrow>
         (case parse_addr (ct_from req) of
            None \<Rightarrow> Inl (BadRequest (''invalid from address: '' @ ct_from req))
          | Some from \<Rightarrow>
              (case evaluate_tx e from (ct_is_create req) (ct_has_value req) of
                 Allow \<Rightarrow> Inr \<lparr>cr_allowed = True, cr_reason = None, cr_config_version = engine_version e\<rparr>
               | Deny reason \<Rightarrow>
                   Inr \<lparr>cr_allowed = False, cr_reason = Some (deny_reason_str reason),
                        cr_config_version = engine_version e\<rparr>)))"

subsection \<open>The router\<close>

text \<open>A routed request that may change the coordinator; the other routes only read.\<close>

datatype http_request =
    ConfirmIncluded "instance_id list"
  | SubmitXt waiter submission_outcome "(u64, string list) hmap"
  | ForwardXt xt_forward_request
  | PeerVote vote_request
  | PostMailbox bytes

fun serve ::
  "(string \<Rightarrow> string) \<Rightarrow> (bytes \<Rightarrow> (string, mailbox_message) result) \<Rightarrow> app_state \<Rightarrow> http_request \<Rightarrow> sys \<Rightarrow> sys" where
  "serve he decode A (ConfirmIncluded ids) w = snd (handle_confirm_included A ids w)"
| "serve he decode A (SubmitXt wt outcome req) w = snd (handle_submit_xt he A wt outcome req w)"
| "serve he decode A (ForwardXt req) w = snd (handle_forward_xt he A req w)"
| "serve he decode A (PeerVote req) w = snd (handle_peer_vote_request A req w)"
| "serve he decode A (PostMailbox body) w = snd (handle_mailbox decode A body w)"

subsection \<open>The publisher\<close>

datatype payload =
    Decided bytes bool
  | StartInstance start_instance_msg
  | StartPeriod u64 u64
  | MailboxPayload mailbox_message
  | Rollback u64 u64 bytes
  | VotePayload bytes u64 bool
  | OtherPayload

definition handle_publisher_message ::
  "(bytes \<Rightarrow> payload option option) \<Rightarrow> coordinator \<Rightarrow> bytes \<Rightarrow> sys \<Rightarrow> sys" where
  "handle_publisher_message decode C data w =
    (case decode data of
       None \<Rightarrow> w
     | Some msg \<Rightarrow>
         (case msg of
            Some (Decided i d) \<Rightarrow> snd (on_decision C (hex_encode (ext C) i) d w)
          | Some (StartInstance si) \<Rightarrow> snd (handle_start_instance C si w)
          | Some (StartPeriod period superblock) \<Rightarrow> snd (handle_start_period C period w)
          | Some (MailboxPayload m) \<Rightarrow> snd (handle_mailbox_message C m w)
          | Some (Rollback period sb hash) \<Rightarrow> snd (handle_rollback C w)
          | Some (VotePayload i cid v) \<Rightarrow> w
          | _ \<Rightarrow> w))"

fun show_transport_error :: "transport_error \<Rightarrow> string" where
  "show_transport_error ConnectionClosed = ''connection closed''"
| "show_transport_error (ConnectionRefused e) = ''connection refused: '' @ e"
| "show_transport_error Timeout = ''timeout''"
| "show_transport_error (Tls e) = ''TLS error: '' @ e"
| "show_transport_error (Quic e) = ''QUIC error: '' @ e"
| "show_transport_error (Codec e) = ''codec error: '' @ e"
| "show_transport_error (MessageTooLarge n m) =
     ''message too large: '' @ show_nat n @ '' > '' @ show_nat m"
| "show_transport_error (Io e) = ''io error: '' @ e"
| "show_transport_error (TransportOther e) = e"

record publisher_connection =
  pc_chain_id :: u64
  pc_encode_vote :: "bytes \<Rightarrow> u64 \<Rightarrow> bool \<Rightarrow> bytes"

definition other_err ::
  "(transport_error, unit) result \<times> quic_client \<Rightarrow> (coordinator_error, unit) result \<times> quic_client" where
  "other_err r = (case r of (Inl e, st) \<Rightarrow> (Inl (Other (show_transport_error e)), st) | (Inr u, st) \<Rightarrow> (Inr u, st))"

definition connection_connect :: "network \<Rightarrow> quic_client \<Rightarrow> (coordinator_error, unit) result \<times> quic_client" where
  "connection_connect N st = other_err (connect N st)"

definition connection_connect_with_retry :: "network \<Rightarrow> quic_client \<Rightarrow> (coordinator_error, unit) result \<times> quic_client" where
  "connection_connect_with_retry N st = other_err (connect_with_retry N st)"

definition connection_disconnect :: "network \<Rightarrow> quic_client \<Rightarrow> (coordinator_error, unit) result \<times> quic_client" where
  "connection_disconnect N st = other_err (close_client N st)"

definition connection_send_vote ::
  "network \<Rightarrow> publisher_connection \<Rightarrow> bytes \<Rightarrow> bool \<Rightarrow> quic_client \<Rightarrow> (coordinator_error, unit) result \<times> quic_client" where
  "connection_send_vote N p i vote st =
    other_err (send N (pc_encode_vote p i (pc_chain_id p) vote) st)"

definition connection_send_raw ::
  "network \<Rightarrow> bytes \<Rightarrow> quic_client \<Rightarrow> (coordinator_error, unit) result \<times> quic_client" where
  "connection_send_raw N data st = other_err (send N data st)"

section \<open>Lemmas\<close>

lemma answer_ok_snd: "snd (answer_ok A r) = snd r"
  by (simp add: answer_ok_def split: prod.split sum.split)

lemma answer_ok_Inr: "answer_ok A r = (Inr x, w) \<longleftrightarrow> r = (Inr (), w) \<and> x = ''ok''"
  by (auto simp: answer_ok_def split: prod.splits sum.splits)

lemma serve_steps:
  assumes "hex_spec (ext (app_coordinator A))"
  shows "steps w (serve he decode A req w)"
proof (cases req)
  case (SubmitXt wt outcome txs)
  have "steps w (snd (submit_xt (app_coordinator A) wt outcome ts w))" for ts by (rule submit_xt_steps[OF assms])
  then show ?thesis using SubmitXt
    by (simp add: handle_submit_xt_def Let_def split: sum.split prod.split) (metis snd_conv)
qed (use assms in \<open>auto simp: handle_confirm_included_def handle_forward_xt_def handle_peer_vote_request_def
  handle_mailbox_def answer_ok_snd Let_def confirm_steps handle_forwarded_xt_steps steps_decision
  handle_mailbox_message_steps split: sum.split\<close>)

lemma publisher_message_steps:
  assumes "hex_spec (ext C)"
  shows "steps w (handle_publisher_message decode C data w)"
  using assms
  by (auto simp: handle_publisher_message_def steps_decision handle_start_instance_steps handle_start_period_steps
    handle_mailbox_message_steps handle_rollback_steps split: option.split payload.split)

subsection \<open>Forwarding\<close>

definition same_xt :: "pending_xt \<Rightarrow> pending_xt \<Rightarrow> bool" where
  "same_xt xt yt \<longleftrightarrow> xt_raw_txs xt = xt_raw_txs yt \<and> xt_origin_chain xt = xt_origin_chain yt \<and>
     xt_origin_seq xt = xt_origin_seq yt \<and> xt_instance_id xt = xt_instance_id yt"

definition nonempty_txs :: "raw_txs \<Rightarrow> bool" where
  "nonempty_txs txs = list_all (\<lambda>cts. snd cts \<noteq> []) txs"

lemma nonempty_insert: "nonempty_txs m \<Longrightarrow> ds \<noteq> [] \<Longrightarrow> nonempty_txs (hm_insert cid ds m)"
  unfolding nonempty_txs_def by (induction m) auto

lemma decode_submitted_nonempty:
  "decode_submitted X he req acc = Inr txs \<Longrightarrow> nonempty_txs acc \<Longrightarrow> nonempty_txs txs"
proof (induction req arbitrary: acc)
  case (Cons r rest)
  obtain cid hex_txs where r: "r = (cid, hex_txs)" by force
  obtain d where d: "collect (\<lambda>hex_tx. decode_hex X he (trim_start_0x hex_tx)) hex_txs = Inr d"
    using Cons.prems(1) r by (auto split: sum.splits)
  let ?acc = "if d \<noteq> [] then hm_insert cid d acc else acc"
  have "nonempty_txs ?acc" using Cons.prems(2) nonempty_insert by simp
  moreover have "decode_submitted X he rest ?acc = Inr txs" using Cons.prems(1) r d by simp
  ultimately show ?case using Cons.IH by blast
qed simp

lemma retain_nonempty: "nonempty_txs txs \<Longrightarrow> hm_retain (\<lambda>_ ts. ts \<noteq> []) txs = txs"
  unfolding nonempty_txs_def hm_retain_def by (induction txs) auto

lemma standalone_section_new:
  assumes "submit_standalone_section C txs s = (Inr (Inr (i, sub)), s')"
  shows "\<exists>xt. hm_get (pending s') i = Some xt \<and> xt_raw_txs xt = txs \<and> xt_origin_chain xt = Some (chain_id C) \<and>
    xt_origin_seq xt = origin_seq s' \<and> xt_instance_id xt = as_bytes i"
  using assms
  by (auto simp: submit_standalone_section_def Let_def register_xt_def hm_simps pending_xt_new_def
    split: option.splits if_splits)

lemma standalone_forwards:
  assumes "submit_xt_standalone C txs w = (Inr i, w')" "length (sys_log w) < length (sys_log w')"
    and "last (sys_log w') = EForwardXt j ftxs oc sq"
  shows "j = i \<and> ftxs = txs \<and> (\<exists>xt. hm_get (pending (sys_state w')) i = Some xt \<and> xt_raw_txs xt = txs \<and>
    xt_origin_chain xt = Some oc \<and> xt_origin_seq xt = sq \<and> xt_instance_id xt = as_bytes i)"
proof -
  obtain r s where sec: "submit_standalone_section C txs (sys_state w) = (r, s)" by force
  obtain k sub where r: "r = Inr (Inr (k, sub))"
    using assms(1,2) sec by (auto simp: submit_xt_standalone_def split: sum.splits)
  let ?w = "case sub of None \<Rightarrow> (Inr (), w\<lparr>sys_state := s\<rparr>) | Some b \<Rightarrow> submit_xt_to_builder C b (w\<lparr>sys_state := s\<rparr>)"
  have st: "sys_state (snd ?w) = s" by (simp split: option.split)
  obtain q w2 where W: "?w = (q, w2)" by force
  have w2: "sys_state w2 = s" using st W by simp
  have e: "submit_xt_standalone C txs w = (case q of Inl err \<Rightarrow> (Inl err, snd (remove_pending_xt C k w2))
      | Inr _ \<Rightarrow> (let v = emit (ESpawnProcess k) w2
          in (Inr k, if has_peer_coordinator C then emit (EForwardXt k txs (chain_id C) (origin_seq (sys_state v))) v else v)))"
    using sec r W by (simp add: submit_xt_standalone_def)
  have "k = i" "w' = (let v = emit (ESpawnProcess i) w2
      in if has_peer_coordinator C then emit (EForwardXt i txs (chain_id C) (origin_seq (sys_state v))) v else v)"
    using assms(1) unfolding e by (auto simp: Let_def split: sum.splits)
  then have "sys_state w' = s" "EForwardXt j ftxs oc sq = EForwardXt i txs (chain_id C) (origin_seq s)"
    using assms(3) w2 by (auto simp: Let_def emit_def split: if_splits)
  then show ?thesis using standalone_section_new[of C txs _ i sub s] sec r \<open>k = i\<close> by auto
qed

lemma forwarded_records:
  assumes "handle_forwarded_xt D j txs oc sq v = (Inr (), v')" "\<not> hm_contains (pending (sys_state v)) j"
    and "nonempty_txs txs"
  shows "\<exists>yt. hm_get (pending (sys_state v')) j = Some yt \<and> xt_raw_txs yt = txs \<and>
    xt_origin_chain yt = Some oc \<and> xt_origin_seq yt = sq \<and> xt_instance_id yt = as_bytes j"
proof -
  obtain r s where sec: "forwarded_xt_section D j txs oc sq (sys_state v) = (r, s)" by force
  obtain l sub where r: "r = Inr (Some (l, sub))"
    using assms(1,2) sec retain_nonempty[OF assms(3)]
    by (auto simp: handle_forwarded_xt_def forwarded_xt_section_def Let_def split: if_splits)
  have s: "\<exists>yt. hm_get (pending s) j = Some yt \<and> xt_raw_txs yt = txs \<and>
    xt_origin_chain yt = Some oc \<and> xt_origin_seq yt = sq \<and> xt_instance_id yt = as_bytes j"
  proof -
    obtain xt where "s = attach_buffered (as_bytes j) j (register_xt (as_bytes j) xt (sys_state v))" "xt_id xt = j"
        "xt_raw_txs xt = txs" "xt_origin_chain xt = Some oc" "xt_origin_seq xt = sq" "xt_instance_id xt = as_bytes j"
      using sec r by (auto simp: forwarded_xt_section_def Let_def pending_xt_new_def split: if_splits)
    then show ?thesis by (simp add: attach_buffered_fields register_xt_def hm_simps)
  qed
  have "sys_state v' = s"
    using assms(1) sec r retain_nonempty[OF assms(3)]
    by (cases sub) (auto simp: handle_forwarded_xt_def Let_def emit_def split: if_splits prod.splits sum.splits
      dest: arg_cong[where f = "\<lambda>p. sys_state (snd p)"])
  then show ?thesis using s by simp
qed

section \<open>Properties\<close>


definition demo_app :: app_state where
  "demo_app = app_state_new hex_coordinator"

definition demo_peer :: app_state where
  "demo_peer = app_state_new (hex_coordinator\<lparr>chain_id := 2\<rparr>)"


datatype sidecar_input = Http app_state http_request | FromPublisher coordinator bytes

fun input_coordinator :: "sidecar_input \<Rightarrow> coordinator" where
  "input_coordinator (Http A req) = app_coordinator A"
| "input_coordinator (FromPublisher C data) = C"

fun handle_input ::
  "(string \<Rightarrow> string) \<Rightarrow> (bytes \<Rightarrow> (string, mailbox_message) result) \<Rightarrow> (bytes \<Rightarrow> payload option option)
    \<Rightarrow> sidecar_input \<Rightarrow> sys \<Rightarrow> sys" where
  "handle_input he dm dp (Http A req) w = serve he dm A req w"
| "handle_input he dm dp (FromPublisher C data) w = handle_publisher_message dp C data w"

lemma inputs_steps:
  "\<forall>inp\<in>set inputs. hex_spec (ext (input_coordinator inp)) \<Longrightarrow> steps w (fold (handle_input he dm dp) inputs w)"
proof (induction inputs arbitrary: w)
  case (Cons inp inputs)
  have "steps w (handle_input he dm dp inp w)"
    using Cons.prems by (cases inp) (auto simp: serve_steps publisher_message_steps)
  then show ?case using Cons.IH[of "handle_input he dm dp inp w"] Cons.prems by (auto intro: rtranclp_trans)
qed simp



end
