(* ===== verification/Wiring.thy ===== *)
theory Wiring
  imports Adapters Policy_Stream Server
begin

text \<open>
  How a sidecar is put together: the command-line settings \<open>config/src/lib.rs\<close>, the
  \<open>CoordinatorBuilder\<close> of \<open>coordinator/coordinator/src/builder.rs\<close> with the constructor and
  setters of the coordinator, and the binary \<open>bin/sidecar/src/main.rs\<close>, including the
  task that receives the publisher's messages.

  The libraries that the constructors call are the fields of the record \<open>platform\<close>; its
  \<open>pl_template\<close> carries the parameters of the coordinator model (clock, encodings) that have
  no setting.
\<close>

section \<open>Settings\<close>

record server_args =
  sa_listen_addr :: string
  sa_read_timeout_secs :: u64
  sa_write_timeout_secs :: u64

record publisher_args =
  pa_enabled :: bool
  pa_addr :: string
  pa_reconnect_delay_secs :: u64
  pa_max_retries :: u32

record chain_args =
  ca_id :: u64
  ca_name :: string
  ca_rpc :: string
  ca_builder_rpc :: string
  ca_mailbox_address :: string
  ca_coordinator_key :: string

record log_args =
  la_level :: string
  la_format :: string

record verification_args =
  va_enabled :: bool
  va_url :: string
  va_timeout_ms :: u64

record permissions_args =
  perm_enabled :: bool
  perm_config_ws_url :: string
  perm_auth_token :: string

record sidecar_args =
  arg_server :: server_args
  arg_publisher :: publisher_args
  arg_chain :: chain_args
  arg_peers :: "peer_entry list"
  arg_log :: log_args
  arg_verification :: verification_args
  arg_permissions :: permissions_args

definition builder_rpc_url :: "chain_args \<Rightarrow> string" where
  "builder_rpc_url c = (if ca_builder_rpc c = [] then ca_rpc c else ca_builder_rpc c)"

definition auth_token :: "permissions_args \<Rightarrow> string option" where
  "auth_token p = (if perm_auth_token p = [] then None else Some (perm_auth_token p))"

section \<open>The coordinator and its builder\<close>

type_synonym sim_fn = "u64 \<Rightarrow> bytes \<Rightarrow> state_override \<Rightarrow> dependency list \<Rightarrow> (string, simulation_result) result"
type_synonym send_fn = "u64 \<Rightarrow> mailbox_message \<Rightarrow> (coordinator_error, unit) result"
type_synonym verify_fn = "verification_payload \<Rightarrow> (string, u32 \<times> string) result"

definition build_verification_client :: "verify_fn \<Rightarrow> verification_config \<Rightarrow> verify_fn option" where
  "build_verification_client http v = (if \<not> verification_enabled v then None else Some http)"

definition coordinator_new ::
  "coordinator \<Rightarrow> verify_fn \<Rightarrow> u64 \<Rightarrow> sim_fn option \<Rightarrow> publisher_client option \<Rightarrow> send_fn option \<Rightarrow> bool \<Rightarrow> bool
    \<Rightarrow> verification_config \<Rightarrow> coordinator" where
  "coordinator_new T http cid sim pub sender queue peers v =
    T\<lparr>chain_id := cid, simulator := sim, publisher := pub, mailbox_sender := sender, has_mailbox_queue := queue,
      has_peer_coordinator := peers, put_inbox := None, builder_client := None, verification := v,
      verification_client := build_verification_client http v, permission := None\<rparr>"

definition set_permission_engine :: "permission_engine \<Rightarrow> coordinator \<Rightarrow> coordinator" where
  "set_permission_engine engine C = C\<lparr>permission := Some engine\<rparr>"

definition set_put_inbox_builder :: "put_inbox_builder \<Rightarrow> coordinator \<Rightarrow> coordinator" where
  "set_put_inbox_builder b C = C\<lparr>put_inbox := Some b\<rparr>"

definition set_xt_builder_client :: "xt_builder_client \<Rightarrow> coordinator \<Rightarrow> coordinator" where
  "set_xt_builder_client c C = C\<lparr>builder_client := Some c\<rparr>"

record coordinator_builder =
  cb_chain_id :: u64
  cb_simulator :: "sim_fn option"
  cb_publisher :: "publisher_client option"
  cb_mailbox_sender :: "send_fn option"
  cb_mailbox_queue :: bool
  cb_peer_coordinator :: bool
  cb_put_inbox_builder :: "put_inbox_builder option"
  cb_xt_builder_client :: "xt_builder_client option"
  cb_circ_timeout_ms :: u64
  cb_verification :: verification_config
  cb_permission_engine :: "permission_engine option"

definition coordinator_builder_new :: "u64 \<Rightarrow> coordinator_builder" where
  "coordinator_builder_new cid =
    \<lparr>cb_chain_id = cid, cb_simulator = None, cb_publisher = None, cb_mailbox_sender = None, cb_mailbox_queue = False,
     cb_peer_coordinator = False, cb_put_inbox_builder = None, cb_xt_builder_client = None,
     cb_circ_timeout_ms = 10000,
     cb_verification = \<lparr>verification_enabled = False, verification_url = [], verification_timeout_ms = 0\<rparr>,
     cb_permission_engine = None\<rparr>"

text \<open>The setters of the builder.  The mailbox queue and the peer coordinator are present or absent; their
  state and effects are part of the system state.\<close>

definition builder_simulator :: "sim_fn \<Rightarrow> coordinator_builder \<Rightarrow> coordinator_builder" where
  [simp]: "builder_simulator x b = b\<lparr>cb_simulator := Some x\<rparr>"

definition builder_publisher :: "publisher_client \<Rightarrow> coordinator_builder \<Rightarrow> coordinator_builder" where
  [simp]: "builder_publisher x b = b\<lparr>cb_publisher := Some x\<rparr>"

definition builder_mailbox_sender :: "send_fn \<Rightarrow> coordinator_builder \<Rightarrow> coordinator_builder" where
  [simp]: "builder_mailbox_sender x b = b\<lparr>cb_mailbox_sender := Some x\<rparr>"

definition builder_mailbox_queue :: "coordinator_builder \<Rightarrow> coordinator_builder" where
  [simp]: "builder_mailbox_queue b = b\<lparr>cb_mailbox_queue := True\<rparr>"

definition builder_peer_coordinator :: "coordinator_builder \<Rightarrow> coordinator_builder" where
  [simp]: "builder_peer_coordinator b = b\<lparr>cb_peer_coordinator := True\<rparr>"

definition builder_put_inbox_builder :: "put_inbox_builder \<Rightarrow> coordinator_builder \<Rightarrow> coordinator_builder" where
  [simp]: "builder_put_inbox_builder x b = b\<lparr>cb_put_inbox_builder := Some x\<rparr>"

definition builder_xt_builder_client :: "xt_builder_client \<Rightarrow> coordinator_builder \<Rightarrow> coordinator_builder" where
  [simp]: "builder_xt_builder_client x b = b\<lparr>cb_xt_builder_client := Some x\<rparr>"

definition builder_circ_timeout_ms :: "u64 \<Rightarrow> coordinator_builder \<Rightarrow> coordinator_builder" where
  [simp]: "builder_circ_timeout_ms x b = b\<lparr>cb_circ_timeout_ms := x\<rparr>"

definition builder_verification_config :: "verification_config \<Rightarrow> coordinator_builder \<Rightarrow> coordinator_builder" where
  [simp]: "builder_verification_config x b = b\<lparr>cb_verification := x\<rparr>"

definition builder_permission_engine :: "permission_engine \<Rightarrow> coordinator_builder \<Rightarrow> coordinator_builder" where
  [simp]: "builder_permission_engine x b = b\<lparr>cb_permission_engine := Some x\<rparr>"

definition validate_verification_config ::
  "(string \<Rightarrow> (string, unit) result) \<Rightarrow> verification_config \<Rightarrow> (coordinator_error, unit) result" where
  "validate_verification_config url_parse v =
    (if \<not> verification_enabled v then Inr ()
     else if trim (verification_url v) = []
     then Inl (Other ''verification.enabled requires verification.url'')
     else case url_parse (verification_url v) of
            Inl e \<Rightarrow> Inl (Other (''invalid verification.url '' @ [char_of (39 :: nat)] @ verification_url v @
                       [char_of (39 :: nat)] @ '': '' @ e))
          | Inr _ \<Rightarrow> Inr ())"

definition build ::
  "coordinator \<Rightarrow> verify_fn \<Rightarrow> (string \<Rightarrow> (string, unit) result) \<Rightarrow> coordinator_builder
    \<Rightarrow> (coordinator_error, coordinator) result" where
  "build T http url_parse b =
    (case validate_verification_config url_parse (cb_verification b) of
       Inl e \<Rightarrow> Inl e
     | Inr _ \<Rightarrow>
         let coord = coordinator_new T http (cb_chain_id b) (cb_simulator b) (cb_publisher b) (cb_mailbox_sender b)
               (cb_mailbox_queue b) (cb_peer_coordinator b) (cb_verification b);
             coord = (case cb_put_inbox_builder b of Some p \<Rightarrow> set_put_inbox_builder p coord | None \<Rightarrow> coord);
             coord = (case cb_xt_builder_client b of Some c \<Rightarrow> set_xt_builder_client c coord | None \<Rightarrow> coord);
             coord = (case cb_permission_engine b of Some e \<Rightarrow> set_permission_engine e coord | None \<Rightarrow> coord)
         in Inr coord)"

section \<open>The binary\<close>

record platform =
  pl_template :: coordinator
  pl_verification_http :: verify_fn
  pl_url_parse :: "string \<Rightarrow> (string, unit) result"
  pl_client_build :: "(string, unit) result"
  pl_builder_http :: builder_http
  pl_put_inbox :: put_inbox_lib
  pl_rpc_backend :: rpc_backend
  pl_mailbox_abi :: mailbox_abi
  pl_peer_http :: peer_http
  pl_quic_new :: "client_config \<Rightarrow> (transport_error, unit) result"
  pl_publisher_connection :: "client_config \<Rightarrow> u64 \<Rightarrow> publisher_client"

datatype startup_error = Bail string | PeerConfig peer_config_error | CoordinatorFailed coordinator_error

definition build_permission_engine :: "sidecar_args \<Rightarrow> (startup_error, permission_engine option) result" where
  "build_permission_engine args =
    (if \<not> perm_enabled (arg_permissions args) then Inr None
     else if trim (perm_config_ws_url (arg_permissions args)) = []
     then Inl (Bail ''permissions.enabled requires permissions.config-ws-url'')
     else Inr (Some (engine_new True)))"

text \<open>The parts of \<open>build_coordinator\<close>, one for each block that configures a dependency.\<close>

definition wire_builder_client :: "platform \<Rightarrow> string \<Rightarrow> coordinator_builder \<Rightarrow> coordinator_builder" where
  "wire_builder_client P url b =
    (if url = [] then b
     else case http_xt_builder_client_new (pl_client_build P) url of
            Inr client \<Rightarrow> builder_xt_builder_client (as_builder_client (pl_builder_http P) client) b
          | Inl e \<Rightarrow> b)"

definition wire_put_inbox :: "platform \<Rightarrow> chain_args \<Rightarrow> coordinator_builder \<Rightarrow> coordinator_builder" where
  "wire_put_inbox P c b =
    (if ca_rpc c \<noteq> [] \<and> ca_mailbox_address c \<noteq> [] \<and> ca_coordinator_key c \<noteq> []
     then case put_inbox_tx_builder_new (pl_put_inbox P) (ca_id c) (ca_rpc c) (ca_mailbox_address c)
                 (ca_coordinator_key c) of
            Inr p \<Rightarrow> builder_put_inbox_builder (as_put_inbox_builder (pl_put_inbox P) p) b
          | Inl e \<Rightarrow> b
     else b)"

definition wire_simulator :: "platform \<Rightarrow> chain_args \<Rightarrow> coordinator_builder \<Rightarrow> coordinator_builder" where
  "wire_simulator P c b =
    (let url = builder_rpc_url c in
     if url = [] then b
     else
       let sim = rpc_simulator_new (pl_rpc_backend P) [\<lparr>rpc_chain_id = ca_id c, rpc_url = url\<rparr>];
           sim = (if ca_mailbox_address c \<noteq> []
                  then case lib_parse_address (pl_put_inbox P) (ca_mailbox_address c) of
                         Inr addr \<Rightarrow> with_mailbox_address addr sim
                       | Inl e \<Rightarrow> sim
                  else sim)
       in builder_simulator (rpc_simulate (ext (pl_template P)) (pl_mailbox_abi P) sim) b)"

definition wire_peers :: "platform \<Rightarrow> peer_entry list \<Rightarrow> coordinator_builder \<Rightarrow> coordinator_builder" where
  "wire_peers P entries b =
    (if entries = [] then b
     else builder_mailbox_sender (mailbox_send (ext (pl_template P)) (with_peer_entries (pl_peer_http P) entries))
            (builder_peer_coordinator b))"

definition publisher_client_config :: "sidecar_args \<Rightarrow> client_config" where
  "publisher_client_config args = client_config_default
    \<lparr>cc_addr := pa_addr (arg_publisher args), cc_client_id := show_u64 (ca_id (arg_chain args)),
     cc_reconnect_delay := pa_reconnect_delay_secs (arg_publisher args),
     cc_max_retries := pa_max_retries (arg_publisher args)\<rparr>"

definition wire_publisher ::
  "platform \<Rightarrow> sidecar_args \<Rightarrow> coordinator_builder \<Rightarrow> coordinator_builder \<times> quic_client option" where
  "wire_publisher P args b =
    (if pa_enabled (arg_publisher args) \<and> pa_addr (arg_publisher args) \<noteq> []
     then let client_config = publisher_client_config args in
          case pl_quic_new P client_config of
            Inr _ \<Rightarrow> (builder_publisher (pl_publisher_connection P client_config (ca_id (arg_chain args))) b,
                      Some (quic_client_new client_config))
          | Inl e \<Rightarrow> (b, None)
     else (b, None))"

definition verification_settings :: "verification_args \<Rightarrow> verification_config" where
  "verification_settings v = \<lparr>verification_enabled = va_enabled v, verification_url = va_url v,
     verification_timeout_ms = va_timeout_ms v\<rparr>"

definition build_coordinator ::
  "platform \<Rightarrow> sidecar_args \<Rightarrow> permission_engine option
    \<Rightarrow> (startup_error, coordinator \<times> quic_client option) result" where
  "build_coordinator P args engine =
    (let c = arg_chain args;
         b = coordinator_builder_new (ca_id c);
         b = (case engine of Some e \<Rightarrow> builder_permission_engine e b | None \<Rightarrow> b);
         b = wire_builder_client P (builder_rpc_url c) b;
         b = wire_put_inbox P c b;
         b = wire_simulator P c b;
         b = builder_mailbox_queue b;
         b = builder_verification_config (verification_settings (arg_verification args)) b
     in case peer_entries (arg_peers args) of
          Inl e \<Rightarrow> Inl (PeerConfig e)
        | Inr entries \<Rightarrow>
            (let (b, quic_client) = wire_publisher P args (wire_peers P entries b)
             in case build (pl_template P) (pl_verification_http P) (pl_url_parse P) b of
                  Inl e \<Rightarrow> Inl (CoordinatorFailed e)
                | Inr coord \<Rightarrow> Inr (coord, quic_client)))"

text \<open>What \<open>main\<close> assembles before it serves: the application state, the publisher's client and the
  client of the policy stream.\<close>

definition assemble ::
  "platform \<Rightarrow> sidecar_args \<Rightarrow> (startup_error, app_state \<times> quic_client option \<times> ws_client option) result" where
  "assemble P args =
    (case build_permission_engine args of
       Inl e \<Rightarrow> Inl e
     | Inr engine \<Rightarrow>
         (case build_coordinator P args engine of
            Inl e \<Rightarrow> Inl e
          | Inr (coord, quic_client) \<Rightarrow>
              (let stream = map_option (\<lambda>_. config_stream_client (perm_config_ws_url (arg_permissions args))
                     (auth_token (arg_permissions args))) engine;
                   state = app_state_new coord;
                   state = (case engine of Some e \<Rightarrow> with_permission_engine e state | None \<Rightarrow> state)
               in Inr (state, quic_client, stream))))"

subsection \<open>Receiving from the publisher\<close>

text \<open>The receive loop, for up to \<open>n\<close> receives: the messages handed to tasks of their own, and whether
  the loop is still running, waits forever in a receive, or has ended with an error.\<close>

datatype loop_status = Running | Waiting | Ended transport_error

fun receive_loop :: "network \<Rightarrow> nat \<Rightarrow> quic_client \<Rightarrow> bytes list \<times> loop_status \<times> quic_client" where
  "receive_loop N 0 st = ([], Running, st)"
| "receive_loop N (Suc n) st =
    (case recv N st of
       None \<Rightarrow> ([], Waiting, st)
     | Some (Inr data, st) \<Rightarrow>
         (let (ds, status, st) = receive_loop N n st in (data # ds, status, st))
     | Some (Inl e, st) \<Rightarrow> ([], Ended e, st))"

definition spawn_publisher_connection ::
  "network \<Rightarrow> nat \<Rightarrow> quic_client \<Rightarrow> bytes list \<times> loop_status \<times> quic_client" where
  "spawn_publisher_connection N n st =
    (case connect_with_retry N st of
       (Inl e, st) \<Rightarrow> ([], Ended e, st)
     | (Inr _, st) \<Rightarrow> receive_loop N n st)"

section \<open>Lemmas\<close>

lemma build_fields:
  assumes "build T http up b = Inr C"
  shows "chain_id C = cb_chain_id b" "simulator C = cb_simulator b" "publisher C = cb_publisher b"
    "mailbox_sender C = cb_mailbox_sender b" "has_mailbox_queue C = cb_mailbox_queue b"
    "has_peer_coordinator C = cb_peer_coordinator b" "put_inbox C = cb_put_inbox_builder b"
    "builder_client C = cb_xt_builder_client b" "permission C = cb_permission_engine b"
    "verification C = cb_verification b" "verification_client C = build_verification_client http (cb_verification b)"
    "validate_verification_config up (cb_verification b) = Inr ()"
  using assms
  by (auto simp: build_def Let_def coordinator_new_def set_put_inbox_builder_def set_xt_builder_client_def
    set_permission_engine_def split: sum.splits option.splits)

lemma wire_builder_client_fields [simp]:
  "cb_chain_id (wire_builder_client P u b) = cb_chain_id b"
  "cb_put_inbox_builder (wire_builder_client P u b) = cb_put_inbox_builder b"
  "cb_permission_engine (wire_builder_client P u b) = cb_permission_engine b"
  "cb_publisher (wire_builder_client P u b) = cb_publisher b"
  "cb_mailbox_sender (wire_builder_client P u b) = cb_mailbox_sender b"
  "cb_peer_coordinator (wire_builder_client P u b) = cb_peer_coordinator b"
  "cb_simulator (wire_builder_client P u b) = cb_simulator b"
  by (simp_all add: wire_builder_client_def split: sum.split)

lemma wire_put_inbox_fields [simp]:
  "cb_chain_id (wire_put_inbox P c b) = cb_chain_id b"
  "cb_xt_builder_client (wire_put_inbox P c b) = cb_xt_builder_client b"
  "cb_permission_engine (wire_put_inbox P c b) = cb_permission_engine b"
  "cb_publisher (wire_put_inbox P c b) = cb_publisher b"
  "cb_mailbox_sender (wire_put_inbox P c b) = cb_mailbox_sender b"
  "cb_peer_coordinator (wire_put_inbox P c b) = cb_peer_coordinator b"
  "cb_simulator (wire_put_inbox P c b) = cb_simulator b"
  by (simp_all add: wire_put_inbox_def split: sum.split)

lemma wire_simulator_fields [simp]:
  "cb_chain_id (wire_simulator P c b) = cb_chain_id b"
  "cb_xt_builder_client (wire_simulator P c b) = cb_xt_builder_client b"
  "cb_put_inbox_builder (wire_simulator P c b) = cb_put_inbox_builder b"
  "cb_permission_engine (wire_simulator P c b) = cb_permission_engine b"
  "cb_publisher (wire_simulator P c b) = cb_publisher b"
  "cb_mailbox_sender (wire_simulator P c b) = cb_mailbox_sender b"
  "cb_peer_coordinator (wire_simulator P c b) = cb_peer_coordinator b"
  by (simp_all add: wire_simulator_def Let_def)

lemma wire_peers_fields [simp]:
  "cb_chain_id (wire_peers P ps b) = cb_chain_id b"
  "cb_xt_builder_client (wire_peers P ps b) = cb_xt_builder_client b"
  "cb_put_inbox_builder (wire_peers P ps b) = cb_put_inbox_builder b"
  "cb_permission_engine (wire_peers P ps b) = cb_permission_engine b"
  "cb_publisher (wire_peers P ps b) = cb_publisher b"
  "cb_simulator (wire_peers P ps b) = cb_simulator b"
  "cb_mailbox_queue (wire_peers P ps b) = cb_mailbox_queue b"
  "cb_verification (wire_peers P ps b) = cb_verification b"
  by (simp_all add: wire_peers_def)

lemma wire_publisher_fields:
  assumes "wire_publisher P args b = (b', q)"
  shows "cb_chain_id b' = cb_chain_id b" "cb_xt_builder_client b' = cb_xt_builder_client b"
    "cb_put_inbox_builder b' = cb_put_inbox_builder b" "cb_permission_engine b' = cb_permission_engine b"
    "cb_simulator b' = cb_simulator b" "cb_mailbox_queue b' = cb_mailbox_queue b"
    "cb_verification b' = cb_verification b" "cb_mailbox_sender b' = cb_mailbox_sender b"
    "cb_peer_coordinator b' = cb_peer_coordinator b"
    "cb_publisher b = None \<Longrightarrow> (cb_publisher b' \<noteq> None \<longleftrightarrow> q \<noteq> None)"
  using assms by (auto simp: wire_publisher_def Let_def split: if_splits sum.splits)

text \<open>What the built coordinator holds, in terms of the settings.\<close>

lemma build_coordinator_fields:
  assumes "build_coordinator P args engine = Inr (C, q)"
  defines "c \<equiv> arg_chain args"
  defines "b \<equiv> coordinator_builder_new (ca_id c)\<lparr>cb_permission_engine := engine\<rparr>"
  shows "chain_id C = ca_id c" "simulator C = cb_simulator (wire_simulator P c b)"
    "builder_client C = cb_xt_builder_client (wire_builder_client P (builder_rpc_url c) b)"
    "put_inbox C = cb_put_inbox_builder (wire_put_inbox P c b)" "permission C = engine"
    "has_mailbox_queue C" "has_peer_coordinator C \<longleftrightarrow> arg_peers args \<noteq> []"
    "mailbox_sender C = cb_mailbox_sender (wire_peers P (arg_peers args) b)"
    "distinct (map pe_chain_id (arg_peers args))" "publisher C \<noteq> None \<longleftrightarrow> q \<noteq> None"
    "verification_client C \<noteq> None \<longleftrightarrow> va_enabled (arg_verification args)"
    "va_enabled (arg_verification args) \<Longrightarrow> trim (va_url (arg_verification args)) \<noteq> []"
proof -
  have e: "(case engine of Some e \<Rightarrow> builder_permission_engine e (coordinator_builder_new (ca_id c))
      | None \<Rightarrow> coordinator_builder_new (ca_id c)) = b"
    by (simp add: b_def coordinator_builder_new_def split: option.split)
  define b1 where "b1 = wire_simulator P c (wire_put_inbox P c (wire_builder_client P (builder_rpc_url c) b))"
  define v where "v = verification_settings (arg_verification args)"
  define b2 where "b2 = b1\<lparr>cb_mailbox_queue := True, cb_verification := v\<rparr>"
  obtain entries where en: "peer_entries (arg_peers args) = Inr entries"
    using assms(1) by (auto simp: build_coordinator_def Let_def split: sum.splits)
  then have d: "entries = arg_peers args" "distinct (map pe_chain_id (arg_peers args))"
    by (auto simp: peer_entries_distinct)
  obtain b3 q' where w: "wire_publisher P args (wire_peers P entries b2) = (b3, q')" by force
  have B: "build (pl_template P) (pl_verification_http P) (pl_url_parse P) b3 = Inr C" "q = q'"
    using assms(1) en w unfolding build_coordinator_def Let_def c_def[symmetric] e b1_def[symmetric]
    by (auto simp: b2_def v_def split: sum.splits)
  note f = build_fields[OF B(1)] wire_publisher_fields[OF w]
  have init: "cb_simulator b = None" "cb_xt_builder_client b = None" "cb_put_inbox_builder b = None"
      "cb_mailbox_sender b = None" "cb_peer_coordinator b = False" "cb_publisher b = None" "cb_chain_id b = ca_id c"
      "cb_permission_engine b = engine"
    by (simp_all add: b_def coordinator_builder_new_def)
  show "chain_id C = ca_id c" "permission C = engine" "has_mailbox_queue C"
    using f by (simp_all add: b2_def b1_def init)
  show "simulator C = cb_simulator (wire_simulator P c b)"
    using f by (simp add: b2_def b1_def wire_simulator_def Let_def init)
  show "builder_client C = cb_xt_builder_client (wire_builder_client P (builder_rpc_url c) b)"
    using f by (simp add: b2_def b1_def)
  show "put_inbox C = cb_put_inbox_builder (wire_put_inbox P c b)"
    using f by (simp add: b2_def b1_def wire_put_inbox_def init split: sum.split)
  show "has_peer_coordinator C \<longleftrightarrow> arg_peers args \<noteq> []"
    "mailbox_sender C = cb_mailbox_sender (wire_peers P (arg_peers args) b)"
    using f d by (simp_all add: b2_def b1_def wire_peers_def init)
  show "distinct (map pe_chain_id (arg_peers args))" by (rule d)
  show "publisher C \<noteq> None \<longleftrightarrow> q \<noteq> None" using f B(2) by (simp add: b2_def b1_def init)
  show "verification_client C \<noteq> None \<longleftrightarrow> va_enabled (arg_verification args)"
    using f by (simp add: b2_def v_def verification_settings_def build_verification_client_def)
  show "trim (va_url (arg_verification args)) \<noteq> []" if "va_enabled (arg_verification args)"
    using f(12) that f(19) by (auto simp: b2_def v_def verification_settings_def validate_verification_config_def)
qed

lemma build_ok: "validate_verification_config up (cb_verification b) = Inr () \<Longrightarrow> \<exists>C. build T h up b = Inr C"
  by (simp add: build_def Let_def)

text \<open>Start-up fails only for a duplicate peer or a bad verification URL.\<close>

lemma build_coordinator_ok:
  assumes "distinct (map pe_chain_id (arg_peers args))"
    and "validate_verification_config (pl_url_parse P) (verification_settings (arg_verification args)) = Inr ()"
  shows "\<exists>C q. build_coordinator P args engine = Inr (C, q)"
proof -
  have e: "peer_entries (arg_peers args) = Inr (arg_peers args)" using assms(1) by (simp add: peer_entries_distinct)
  have "\<exists>C q. (let (b, quic_client) = wire_publisher P args (wire_peers P (arg_peers args) b)
      in case build (pl_template P) (pl_verification_http P) (pl_url_parse P) b of
           Inl e \<Rightarrow> Inl (CoordinatorFailed e) | Inr coord \<Rightarrow> Inr (coord, quic_client)) = Inr (C, q)"
    if v: "cb_verification b = verification_settings (arg_verification args)" for b
  proof -
    obtain b3 q where w: "wire_publisher P args (wire_peers P (arg_peers args) b) = (b3, q)" by force
    have "validate_verification_config (pl_url_parse P) (cb_verification b3) = Inr ()"
      using assms(2) wire_publisher_fields(7)[OF w] v by simp
    from build_ok[OF this] show ?thesis using w by (metis (no_types, lifting) case_prod_conv old.sum.simps(6))
  qed
  then show ?thesis unfolding build_coordinator_def Let_def e sum.case by (simp add: Let_def)
qed

section \<open>Properties\<close>


text \<open>A mailbox address that does not parse disables mailbox detection silently.  The sidecar starts, with
  a simulator that reports neither dependencies nor outbound messages for any transaction, and without a
  signer for the mailbox contract.\<close>

lemma unparsed_mailbox_blind:
  assumes "build_coordinator P args engine = Inr (C, q)" "builder_rpc_url (arg_chain args) \<noteq> []"
    and "lib_parse_address (pl_put_inbox P) (ca_mailbox_address (arg_chain args)) = Inl e"
  shows "put_inbox C = None \<and> (\<exists>sim. simulator C = Some sim \<and>
    (\<forall>chain tx ov deps r. sim chain tx ov deps = Inr r \<longrightarrow> sim_dependencies r = [] \<and> sim_outbound_messages r = []))"
proof -
  note f = build_coordinator_fields[OF assms(1)]
  let ?S = "rpc_simulator_new (pl_rpc_backend P)
    [\<lparr>rpc_chain_id = ca_id (arg_chain args), rpc_url = builder_rpc_url (arg_chain args)\<rparr>]"
  have n: "sim_mailbox_address ?S = None" by (simp add: rpc_simulator_new_def)
  have "put_inbox C = None"
    using f(4) assms(3) by (simp add: wire_put_inbox_def put_inbox_tx_builder_new_def coordinator_builder_new_def)
  moreover have "simulator C = Some (rpc_simulate (ext (pl_template P)) (pl_mailbox_abi P) ?S)"
    using f(2) assms(2,3) by (simp add: wire_simulator_def Let_def)
  moreover have "sim_dependencies r = [] \<and> sim_outbound_messages r = []"
    if "rpc_simulate X A ?S chain tx ov deps = Inr r" for X A chain tx ov deps r
    using that n by (auto simp: rpc_simulate_def simulate_with_mailbox_def simulate_def run_traces_def Let_def
      result_from_traces_def extract_mailbox_data_def split: sum.splits)
  ultimately show ?thesis by blast
qed

text \<open>C39: an oversized message ends the receive task on a live connection.  When a stream announces a
  length over the limit, the publisher task stops for good, handing over nothing, while the connection
  stays open and the client still reports that it is connected.\<close>

theorem oversize_stops_receiving:
  assumes "quiet_network N" "qc_connection st = Some c" "is_connected st"
    and "accept_uni N (qc_now st + 1) c = Inr s" "read_exact N (qc_now st + 2) s 4 = Inr h"
    and "codec_max_message_size (qc_codec st) < be_val h"
  shows "\<exists>st'. (\<forall>n. receive_loop N (Suc n) st =
      ([], Ended (MessageTooLarge (be_val h) (codec_max_message_size (qc_codec st))), st')) \<and>
    is_connected st' \<and> qc_connection st' = Some c"
proof -
  let ?st = "st\<lparr>qc_now := qc_now st + 3\<rparr>"
  have r: "accept_uni N (Suc (qc_now st)) c = Inr s" "read_exact N (Suc (Suc (qc_now st))) s 4 = Inr h"
    using assms(4,5) by (simp_all add: numeral_2_eq_2)
  have "recv_step N st = (Some (Inl (MessageTooLarge (be_val h) (codec_max_message_size (qc_codec st)))), ?st)"
    using assms(6) by (simp add: recv_step_def ensure_quiet[OF assms(1,2)] quiet_await[OF assms(1)] r decode_length_def)
  then have "recv N st = Some (Inl (MessageTooLarge (be_val h) (codec_max_message_size (qc_codec st))), ?st)"
    by (simp add: recv.simps[of N st])
  then show ?thesis using assms(2,3) by (intro exI[of _ ?st]) (simp add: is_connected_def)
qed

theorem oversize_stops_receiving_witness:
  "\<exists>st'. receive_loop (demo_network\<lparr>read_exact := \<lambda>t s n. Inr [0, 0, 1, 0]\<rparr>) 5
      (demo_client\<lparr>qc_connection := Some 5, qc_connected := True\<rparr>) = ([], Ended (MessageTooLarge 256 100), st') \<and>
    is_connected st'"
proof -
  let ?N = "demo_network\<lparr>read_exact := \<lambda>t s n. Inr [0, 0, 1, 0]\<rparr>"
  let ?st = "demo_client\<lparr>qc_connection := Some 5, qc_connected := True\<rparr>"
  have v: "be_val [0, 0, 1, 0] = 256" by (simp add: be_val_def)
  have q: "quiet_network ?N" using demo_quiet(1) by (simp add: quiet_network_def)
  have "\<exists>st'. (\<forall>n. receive_loop ?N (Suc n) ?st =
      ([], Ended (MessageTooLarge (be_val [0, 0, 1, 0]) (codec_max_message_size (qc_codec ?st))), st')) \<and>
    is_connected st' \<and> qc_connection st' = Some 5"
    by (rule oversize_stops_receiving[OF q, where s = 1])
      (simp_all add: v is_connected_def demo_client_def quic_client_new_def codec_new_def demo_network_def)
  then obtain st' where r: "\<forall>n. receive_loop ?N (Suc n) ?st =
      ([], Ended (MessageTooLarge (be_val [0, 0, 1, 0]) (codec_max_message_size (qc_codec ?st))), st')"
    and i: "is_connected st'" by blast
  have "codec_max_message_size (qc_codec ?st) = 100"
    by (simp add: demo_client_def quic_client_new_def codec_new_def)
  then have "receive_loop ?N (Suc 4) ?st = ([], Ended (MessageTooLarge 256 100), st')"
    using r[rule_format, of 4] v by (simp only:)
  moreover have "Suc 4 = 5" by simp
  ultimately show ?thesis using i by (intro exI[of _ st']) (simp only: simp_thms)
qed

subsection \<open>A concrete sidecar\<close>

definition demo_args :: sidecar_args where
  "demo_args = \<lparr>arg_server = \<lparr>sa_listen_addr = ''0.0.0.0:8080'', sa_read_timeout_secs = 30, sa_write_timeout_secs = 30\<rparr>,
     arg_publisher = \<lparr>pa_enabled = True, pa_addr = ''sp:1'', pa_reconnect_delay_secs = 5, pa_max_retries = 10\<rparr>,
     arg_chain = \<lparr>ca_id = 1, ca_name = ''a'', ca_rpc = ''http://node'', ca_builder_rpc = [], ca_mailbox_address = ''nonsense'',
       ca_coordinator_key = ''1''\<rparr>,
     arg_peers = [\<lparr>pe_chain_id = 2, pe_addr = ''http://b/''\<rparr>],
     arg_log = \<lparr>la_level = ''info'', la_format = ''json''\<rparr>,
     arg_verification = \<lparr>va_enabled = True, va_url = ''http://v'', va_timeout_ms = 2000\<rparr>,
     arg_permissions = \<lparr>perm_enabled = False, perm_config_ws_url = [], perm_auth_token = []\<rparr>\<rparr>"

definition demo_platform :: platform where
  "demo_platform = \<lparr>pl_template = demo_coordinator, pl_verification_http = \<lambda>p. Inr (200, ''200 OK''),
     pl_url_parse = \<lambda>u. Inr (), pl_client_build = Inr (),
     pl_builder_http = \<lambda>u r. Inr \<lparr>ans_error_for_status = Inr (), ans_json = Inr None\<rparr>,
     pl_put_inbox = \<lparr>lib_parse_address = \<lambda>s. Inl ''odd number of digits'', lib_parse_key = \<lambda>s. Inr 7, lib_parse_url = Inr,
       lib_pending_count = \<lambda>u a. Inr 0, lib_utf8_lossy = \<lambda>b. [], lib_abi_encode = pi_data,
       lib_fill = \<lambda>u tx. Inr (Inr (pt_input tx))\<rparr>,
     pl_rpc_backend = demo_backend (JObject []), pl_mailbox_abi = demo_abi,
     pl_peer_http = \<lparr>http_post = \<lambda>u t b. if u = ''http://b/mailbox'' then Inr (200, ''200 OK'') else Inl ''refused'',
       json_forward = \<lambda>r. Inr [], json_vote = \<lambda>r. Inr [], mailbox_to_vec = \<lambda>m. []\<rparr>,
     pl_quic_new = \<lambda>c. Inr (),
     pl_publisher_connection = \<lambda>c i. \<lparr>publisher_is_connected = False, publisher_send_vote = \<lambda>b v. Inr (),
       publisher_send_raw = \<lambda>b. Inr ()\<rparr>\<rparr>"

lemma demo_builds: "\<exists>C q. build_coordinator demo_platform demo_args None = Inr (C, q)"
proof (rule build_coordinator_ok)
  show "distinct (map pe_chain_id (arg_peers demo_args))" by (simp add: demo_args_def)
  have "trim ''http://v'' = ''http://v''" by code_simp
  then show "validate_verification_config (pl_url_parse demo_platform)
      (verification_settings (arg_verification demo_args)) = Inr ()"
    by (simp add: demo_args_def demo_platform_def validate_verification_config_def verification_settings_def)
qed


lemma unparsed_mailbox_blind_example:
  "\<exists>(C :: coordinator) sim. put_inbox C = None \<and> simulator C = Some sim \<and>
     (\<forall>chain tx ov deps r. sim chain tx ov deps = Inr r \<longrightarrow> sim_dependencies r = [])"
proof -
  obtain C q where b: "build_coordinator demo_platform demo_args None = Inr (C, q)" using demo_builds by blast
  have u: "builder_rpc_url (arg_chain demo_args) \<noteq> []" by (simp add: demo_args_def builder_rpc_url_def)
  have "lib_parse_address (pl_put_inbox demo_platform) (ca_mailbox_address (arg_chain demo_args)) = Inl ''odd number of digits''"
    by (simp add: demo_platform_def)
  from unparsed_mailbox_blind[OF b u this] show ?thesis by blast
qed

end
