(* ===== verification/Sidecar_Network.thy ===== *)
theory Sidecar_Network
  imports Server
begin

text \<open>
  Several sidecars deciding one XT without the publisher.  A cluster gives each
  participating chain its system state; a step of the cluster is a local vote of one
  sidecar, the delivery of a vote that a sidecar sent, or any other activity of a sidecar
  that leaves the votes and the decision of the XT alone.  Votes may be delivered late, in
  any order, more than once or never.  The pipeline up to the vote and the intake of mailbox
  messages are shown to be such other activity (\<open>frame\<close>).  Rollbacks, period changes, publisher
  decisions and the removal of old XTs are not part of the cluster.  The sidecars run the functions of the component
  theories; the decisions of the whole cluster are shown to agree.
\<close>

section \<open>Model\<close>

type_synonym cluster = "u64 \<Rightarrow> sys"

definition standalone_at :: "u64 \<Rightarrow> app_state \<Rightarrow> bool" where
  "standalone_at c A \<longleftrightarrow> chain_id (app_coordinator A) = c \<and> \<not> is_publisher_connected (app_coordinator A)"

definition frame :: "instance_id \<Rightarrow> sys \<Rightarrow> sys \<Rightarrow> bool" where
  "frame i w w' \<longleftrightarrow>
    (\<forall>xt. hm_get (pending (sys_state w)) i = Some xt \<longrightarrow>
       (\<exists>xt'. hm_get (pending (sys_state w')) i = Some xt' \<and> xt_raw_txs xt' = xt_raw_txs xt \<and>
          xt_local_vote xt' = xt_local_vote xt \<and> xt_peer_votes xt' = xt_peer_votes xt \<and>
          xt_decision xt' = xt_decision xt)) \<and>
    (\<forall>c v. EPeerVote i c v \<in> set (sys_log w') \<longrightarrow> EPeerVote i c v \<in> set (sys_log w))"

inductive cluster_step :: "u64 set \<Rightarrow> instance_id \<Rightarrow> cluster \<Rightarrow> cluster \<Rightarrow> bool" for Part i where
  vote: "c \<in> Part \<Longrightarrow> standalone_at c A \<Longrightarrow>
    cluster_step Part i w (w(c := snd (send_vote (app_coordinator A) i v (w c))))"
| deliver: "c \<in> Part \<Longrightarrow> d \<in> Part \<Longrightarrow> standalone_at d A \<Longrightarrow> EPeerVote i c v \<in> set (sys_log (w c)) \<Longrightarrow>
    cluster_step Part i w (w(d := snd (handle_peer_vote_request A
      \<lparr>vr_instance_id = i, vr_chain_id = c, vr_vote = v\<rparr> (w d))))"
| other: "frame i (w c) s \<Longrightarrow> cluster_step Part i w (w(c := s))"

text \<open>The XT is registered everywhere for the same chains, and nobody has voted.\<close>

definition unvoted :: "u64 set \<Rightarrow> pending_xt \<Rightarrow> bool" where
  "unvoted Part xt \<longleftrightarrow> hm_wf (xt_raw_txs xt) \<and> dom (hm_get (xt_raw_txs xt)) = Part \<and>
     xt_local_vote xt = None \<and> xt_peer_votes xt = [] \<and> xt_decision xt = None"

definition cluster_start :: "u64 set \<Rightarrow> instance_id \<Rightarrow> cluster \<Rightarrow> bool" where
  "cluster_start Part i w \<longleftrightarrow> (\<forall>c\<in>Part. (\<exists>xt. hm_get (pending (sys_state (w c))) i = Some xt \<and> unvoted Part xt) \<and>
     (\<forall>d v. EPeerVote i d v \<notin> set (sys_log (w c))))"

definition local_vote :: "instance_id \<Rightarrow> cluster \<Rightarrow> u64 \<Rightarrow> bool option" where
  "local_vote i w c = Option.bind (hm_get (pending (sys_state (w c))) i) xt_local_vote"

definition decided :: "instance_id \<Rightarrow> cluster \<Rightarrow> u64 \<Rightarrow> bool option" where
  "decided i w c = Option.bind (hm_get (pending (sys_state (w c))) i) xt_decision"

section \<open>The invariant\<close>

text \<open>\<open>L\<close> gives the votes cast so far.\<close>

definition recorded :: "(u64 \<Rightarrow> bool option) \<Rightarrow> u64 set \<Rightarrow> u64 \<Rightarrow> pending_xt \<Rightarrow> bool" where
  "recorded L Part c xt \<longleftrightarrow> c \<in> Part \<and> hm_wf (xt_raw_txs xt) \<and> dom (hm_get (xt_raw_txs xt)) = Part \<and>
     hm_wf (xt_peer_votes xt) \<and> xt_local_vote xt = L c \<and>
     (\<forall>d v. hm_get (xt_peer_votes xt) d = Some v \<longrightarrow> d \<in> Part \<and> L d = Some v)"

definition justified :: "(u64 \<Rightarrow> bool option) \<Rightarrow> u64 set \<Rightarrow> pending_xt \<Rightarrow> bool" where
  "justified L Part xt \<longleftrightarrow>
     (xt_decision xt = Some True \<longrightarrow> (\<forall>d\<in>Part. L d = Some True)) \<and>
     (xt_decision xt = Some False \<longrightarrow> (\<exists>d\<in>Part. L d = Some False))"

definition settled :: "u64 \<Rightarrow> pending_xt \<Rightarrow> bool" where
  "settled c xt \<longleftrightarrow> (xt_decision xt = None \<longrightarrow>
     (\<forall>C :: coordinator. chain_id C = c \<longrightarrow> xt_decision (snd (maybe_make_standalone_decision C xt)) = None))"

definition node_ok :: "(u64 \<Rightarrow> bool option) \<Rightarrow> u64 set \<Rightarrow> u64 \<Rightarrow> pending_xt \<Rightarrow> bool" where
  "node_ok L Part c xt \<longleftrightarrow> recorded L Part c xt \<and> justified L Part xt \<and> settled c xt"

definition cluster_inv :: "u64 set \<Rightarrow> instance_id \<Rightarrow> cluster \<Rightarrow> bool" where
  "cluster_inv Part i w \<longleftrightarrow> (\<forall>c\<in>Part.
     (\<exists>xt. hm_get (pending (sys_state (w c))) i = Some xt \<and> node_ok (local_vote i w) Part c xt) \<and>
     (\<forall>v. EPeerVote i c v \<in> set (sys_log (w c)) \<longrightarrow> local_vote i w c = Some v))"

lemma maybe_decision_chain:
  "chain_id C = chain_id C' \<Longrightarrow>
   xt_decision (snd (maybe_make_standalone_decision C xt)) = xt_decision (snd (maybe_make_standalone_decision C' xt))"
  by (simp add: maybe_make_standalone_decision_def tally_def Let_def split: prod.split)

text \<open>Counting the votes keeps a node in order and settles it.\<close>

lemma node_ok_maybe:
  assumes "recorded L Part (chain_id C) xt" "justified L Part xt"
  shows "node_ok L Part (chain_id C) (snd (maybe_make_standalone_decision C xt))"
proof -
  let ?x = "snd (maybe_make_standalone_decision C xt)"
  have r: "recorded L Part (chain_id C) ?x" using assms(1) by (simp add: recorded_def)
  show ?thesis
  proof (cases "xt_decision xt")
    case (Some d)
    then have "?x = xt" using maybe_keeps by (metis snd_conv)
    then show ?thesis using r assms(2) Some by (simp add: node_ok_def settled_def)
  next
    case None
    have w: "hm_wf (xt_raw_txs xt)" "hm_contains (xt_raw_txs xt) (chain_id C)" "hm_wf (xt_peer_votes xt)"
        "dom (hm_get (xt_peer_votes xt)) \<subseteq> dom (hm_get (xt_raw_txs xt))"
      using assms(1) by (auto simp: recorded_def hm_contains_iff)
    have "\<forall>d\<in>Part. L d = Some True" if "xt_decision ?x = Some True"
    proof
      fix d assume d: "d \<in> Part"
      show "L d = Some True"
      proof (cases "d = chain_id C")
        case True
        then show ?thesis using commit_unanimous(1)[OF w None that] assms(1) by (simp add: recorded_def)
      next
        case False
        then have "hm_get (xt_peer_votes xt) d = Some True"
          using d assms(1) by (intro commit_unanimous(2)[OF w None that]) (simp_all add: recorded_def)
        then show ?thesis using assms(1) by (simp add: recorded_def)
      qed
    qed
    moreover have "\<exists>d\<in>Part. L d = Some False" if "xt_decision ?x = Some False"
    proof -
      have "abort_vote C xt" using that maybe_decision[OF None w(3), of C] by (auto split: if_splits)
      then show ?thesis using assms(1) by (fastforce simp: abort_vote_def recorded_def)
    qed
    moreover have "settled (chain_id C) ?x"
      unfolding settled_def
    proof (intro impI allI)
      fix C' :: coordinator
      assume n: "xt_decision ?x = None" and c: "chain_id C' = chain_id C"
      have "?x = xt"
        using n None by (auto simp: maybe_make_standalone_decision_def Let_def split: prod.splits if_splits)
      then show "xt_decision (snd (maybe_make_standalone_decision C' ?x)) = None"
        using n maybe_decision_chain[OF c, of xt] by simp
    qed
    ultimately show ?thesis using r by (simp add: node_ok_def justified_def)
  qed
qed

lemma node_ok_mono:
  assumes "node_ok L Part c xt" "\<And>d v. d \<in> Part \<Longrightarrow> L d = Some v \<Longrightarrow> L' d = Some v" "L' c = L c"
  shows "node_ok L' Part c xt"
  using assms unfolding node_ok_def recorded_def justified_def by metis

text \<open>A step of one node: its XT becomes \<open>xt'\<close>, in order for the votes after the step.\<close>

lemma cluster_inv_update:
  assumes "cluster_inv Part i w" "c \<in> Part" "hm_get (pending (sys_state (w c))) i = Some xt"
    and "hm_get (pending (sys_state s)) i = Some xt'"
    and "node_ok ((local_vote i w)(c := xt_local_vote xt')) Part c xt'"
    and "xt_local_vote xt \<noteq> None \<Longrightarrow> xt_local_vote xt' = xt_local_vote xt"
    and "\<And>v. EPeerVote i c v \<in> set (sys_log s) \<Longrightarrow> xt_local_vote xt' = Some v"
  shows "cluster_inv Part i (w(c := s))"
proof -
  have L: "local_vote i (w(c := s)) = (local_vote i w)(c := xt_local_vote xt')"
    using assms(4) by (auto simp: local_vote_def)
  have m: "((local_vote i w)(c := xt_local_vote xt')) d = Some v" if "local_vote i w d = Some v" for d v
    using that assms(3,6) by (auto simp: local_vote_def)
  show ?thesis unfolding cluster_inv_def L
  proof (intro ballI conjI allI impI)
    fix d assume d: "d \<in> Part"
    show "\<exists>x. hm_get (pending (sys_state ((w(c := s)) d))) i = Some x \<and>
        node_ok ((local_vote i w)(c := xt_local_vote xt')) Part d x"
    proof (cases "d = c")
      case True
      then show ?thesis using assms(4,5) by simp
    next
      case False
      obtain x where x: "hm_get (pending (sys_state (w d))) i = Some x" "node_ok (local_vote i w) Part d x"
        using assms(1) d unfolding cluster_inv_def by blast
      have "node_ok ((local_vote i w)(c := xt_local_vote xt')) Part d x"
        by (rule node_ok_mono[OF x(2) m]) (simp_all add: False)
      then show ?thesis using x(1) False by simp
    qed
    fix v assume e: "EPeerVote i d v \<in> set (sys_log ((w(c := s)) d))"
    show "((local_vote i w)(c := xt_local_vote xt')) d = Some v"
    proof (cases "d = c")
      case True
      then show ?thesis using e assms(7) by simp
    next
      case False
      then show ?thesis using e assms(1) d unfolding cluster_inv_def by simp
    qed
  qed
qed

section \<open>The steps keep the invariant\<close>

lemma cluster_inv_node:
  assumes "cluster_inv Part i w" "c \<in> Part"
  obtains xt where "hm_get (pending (sys_state (w c))) i = Some xt" "node_ok (local_vote i w) Part c xt"
    "xt_local_vote xt = local_vote i w c"
  using assms by (auto simp: cluster_inv_def local_vote_def)

text \<open>The only vote a local vote sends to the peers is the one it casts.\<close>

lemma send_vote_peer_votes:
  assumes "EPeerVote i c v' \<in> set (sys_log (snd (send_vote C i v w)))"
  shows "EPeerVote i c v' \<in> set (sys_log w) \<or>
    (\<exists>xt. hm_get (pending (sys_state w)) i = Some xt \<and> xt_local_vote xt = None \<and> v' = v \<and> c = chain_id C)"
proof -
  obtain r s where sec: "send_vote_section C i v (sys_state w) = (r, s)" by force
  show ?thesis
  proof (cases r)
    case None
    then show ?thesis using assms sec by (simp add: send_vote_def)
  next
    case (Some p)
    obtain b cmd where p: "p = (b, cmd)" by force
    have x: "\<exists>xt. hm_get (pending (sys_state w)) i = Some xt \<and> xt_local_vote xt = None"
      using sec Some by (auto simp: send_vote_section_def split: option.splits if_splits)
    obtain res w' where a: "apply_builder_command_opt C cmd (w\<lparr>sys_state := s\<rparr>) = (res, w')" by force
    obtain es where es: "sys_log w' = sys_log w @ es" "list_all builder_effect es"
      using apply_builder_command_opt_log[of C cmd "w\<lparr>sys_state := s\<rparr>"] a by auto
    have n: "EPeerVote i c v' \<notin> set es" using es(2) by (auto simp: list_all_iff)
    have "EPeerVote i c v' \<in> set (sys_log w') \<or> v' = v \<and> c = chain_id C"
      using assms sec Some p a by (auto simp: send_vote_def emit_def split: sum.splits if_splits)
    then show ?thesis using es(1) n x by auto
  qed
qed

lemma peer_vote_peer_votes:
  "EPeerVote j c v' \<in> set (sys_log (snd (handle_peer_vote C i d v w))) \<longleftrightarrow> EPeerVote j c v' \<in> set (sys_log w)"
proof -
  obtain r s where sec: "peer_vote_section C i d v (sys_state w) = (r, s)" by force
  obtain es where es: "sys_log (snd (handle_peer_vote C i d v w)) = sys_log w @ es" "list_all builder_effect es"
  proof (cases r)
    case (Inr cmd)
    then show ?thesis
      using that sec apply_builder_command_opt_log[of C cmd "w\<lparr>sys_state := s\<rparr>"] by (auto simp: handle_peer_vote_def)
  qed (use that[of "[]"] sec in \<open>simp add: handle_peer_vote_def\<close>)
  then show ?thesis by (auto simp: list_all_iff)
qed

lemma inv_vote:
  assumes "cluster_inv Part i w" "c \<in> Part" "standalone_at c A"
  shows "cluster_inv Part i (w(c := snd (send_vote (app_coordinator A) i v (w c))))"
proof -
  let ?C = "app_coordinator A" and ?s = "snd (send_vote (app_coordinator A) i v (w c))"
  have C: "chain_id ?C = c" "\<not> is_publisher_connected ?C" using assms(3) by (simp_all add: standalone_at_def)
  obtain xt where xt: "hm_get (pending (sys_state (w c))) i = Some xt" "node_ok (local_vote i w) Part c xt"
      "xt_local_vote xt = local_vote i w c" by (rule cluster_inv_node[OF assms(1,2)])
  have sent: "EPeerVote i c v' \<in> set (sys_log (w c)) \<Longrightarrow> xt_local_vote xt = Some v'" for v'
    using assms(1,2) xt(3) by (auto simp: cluster_inv_def)
  show ?thesis
  proof (cases "xt_local_vote xt")
    case (Some l)
    have st: "hm_get (pending (sys_state ?s)) i = Some xt"
      using xt(1) Some by (subst send_vote_state, subst send_vote_section_eq) simp
    have "(local_vote i w)(c := xt_local_vote xt) = local_vote i w" using xt(3) by auto
    then show ?thesis
      using cluster_inv_update[OF assms(1,2) xt(1) st] xt send_vote_peer_votes[of i c _ ?C v "w c"] sent Some
      by fastforce
  next
    case None
    define x where "x = xt\<lparr>xt_simulated_at := Some (clock ?C), xt_vote_sent := True, xt_local_vote := Some v,
               xt_locked_chains := insert (chain_id ?C) (xt_locked_chains xt)\<rparr>"
    have cv: "cast_vote ?C v xt = snd (maybe_make_standalone_decision ?C x)"
      using C by (simp add: cast_vote_def x_def)
    have st: "hm_get (pending (sys_state ?s)) i = Some (cast_vote ?C v xt)"
      using send_vote_section_pending[OF xt(1) None] by (simp add: send_vote_state)
    let ?L = "(local_vote i w)(c := Some v)"
    have le: "?L d = Some u" if "local_vote i w d = Some u" for d u using that xt(3) None by auto
    have p: "d \<in> Part \<and> ?L d = Some u" if "hm_get (xt_peer_votes xt) d = Some u" for d u
      using xt(2) le that unfolding node_ok_def recorded_def by blast
    then have "recorded ?L Part (chain_id ?C) x"
      using xt(2) C by (simp add: node_ok_def recorded_def x_def)
    moreover have "justified ?L Part x"
      using xt(2) le unfolding node_ok_def justified_def x_def by (simp del: fun_upd_apply) blast
    ultimately have "recorded ?L Part (chain_id ?C) x" "justified ?L Part x" by blast+
    from node_ok_maybe[OF this] have "node_ok ?L Part c (cast_vote ?C v xt)" using C cv by simp
    moreover have lv: "xt_local_vote (cast_vote ?C v xt) = Some v" unfolding cv by (simp add: x_def)
    ultimately show ?thesis
      using cluster_inv_update[OF assms(1,2) xt(1) st] None sent send_vote_peer_votes[of i c _ ?C v "w c"] by fastforce
  qed
qed

lemma inv_deliver:
  assumes "cluster_inv Part i w" "c \<in> Part" "d \<in> Part" "standalone_at d A" "EPeerVote i c v \<in> set (sys_log (w c))"
  shows "cluster_inv Part i (w(d := snd (handle_peer_vote_request A
      \<lparr>vr_instance_id = i, vr_chain_id = c, vr_vote = v\<rparr> (w d))))"
proof -
  let ?C = "app_coordinator A"
  define s where "s = snd (handle_peer_vote ?C i c v (w d))"
  have s: "snd (handle_peer_vote_request A \<lparr>vr_instance_id = i, vr_chain_id = c, vr_vote = v\<rparr> (w d)) = s"
    by (simp add: handle_peer_vote_request_def answer_ok_snd s_def)
  have C: "chain_id ?C = d" using assms(4) by (simp add: standalone_at_def)
  obtain xt where xt: "hm_get (pending (sys_state (w d))) i = Some xt" "node_ok (local_vote i w) Part d xt"
      "xt_local_vote xt = local_vote i w d" by (rule cluster_inv_node[OF assms(1,3)])
  have sent: "EPeerVote i d v' \<in> set (sys_log s) \<Longrightarrow> xt_local_vote xt = Some v'" for v'
    using assms(1,3) xt(3) peer_vote_peer_votes[of i d v' ?C i c v "w d"] by (auto simp: cluster_inv_def s_def)
  have L: "(local_vote i w)(d := xt_local_vote xt) = local_vote i w" using xt(3) by auto
  have cast: "local_vote i w c = Some v" using assms(1,2,5) by (simp add: cluster_inv_def)
  let ?x = "xt\<lparr>xt_peer_votes := hm_insert c v (xt_peer_votes xt)\<rparr>"
  have st: "hm_get (pending (sys_state s)) i \<in> {Some xt, Some (snd (maybe_make_standalone_decision ?C ?x))}"
    using peer_vote_section_eq[of ?C i c v "sys_state (w d)"] xt(1)
    by (auto simp: s_def handle_peer_vote_state update_xt_pending)
  have "recorded (local_vote i w) Part (chain_id ?C) ?x" "justified (local_vote i w) Part ?x"
    using xt(2) cast assms(2) C by (auto simp: node_ok_def recorded_def justified_def hm_simps split: if_splits)
  from node_ok_maybe[OF this] have n: "node_ok (local_vote i w) Part d (snd (maybe_make_standalone_decision ?C ?x))"
    using C by simp
  show ?thesis unfolding s
  proof (cases "hm_get (pending (sys_state s)) i = Some xt")
    case True
    then show "cluster_inv Part i (w(d := s))"
      using cluster_inv_update[OF assms(1,3) xt(1) True] xt(2) sent by (simp add: L)
  next
    case False
    then have t: "hm_get (pending (sys_state s)) i = Some (snd (maybe_make_standalone_decision ?C ?x))" using st by simp
    show "cluster_inv Part i (w(d := s))"
      using cluster_inv_update[OF assms(1,3) xt(1) t] n sent by (simp add: L)
  qed
qed

lemma maybe_decision_fields:
  assumes "xt_raw_txs x = xt_raw_txs y" "xt_local_vote x = xt_local_vote y" "xt_peer_votes x = xt_peer_votes y"
    and "xt_decision x = xt_decision y"
  shows "xt_decision (snd (maybe_make_standalone_decision C x)) = xt_decision (snd (maybe_make_standalone_decision C y))"
  using assms by (simp add: maybe_make_standalone_decision_def tally_def Let_def split: prod.split)

lemma node_ok_fields:
  assumes "xt_raw_txs x = xt_raw_txs y" "xt_local_vote x = xt_local_vote y" "xt_peer_votes x = xt_peer_votes y"
    and "xt_decision x = xt_decision y"
  shows "node_ok L Part c x \<longleftrightarrow> node_ok L Part c y"
  using assms maybe_decision_fields[OF assms]
  by (simp add: node_ok_def recorded_def justified_def settled_def)

lemma inv_other:
  assumes "cluster_inv Part i w" "frame i (w c) s"
  shows "cluster_inv Part i (w(c := s))"
proof (cases "c \<in> Part")
  case True
  obtain xt where xt: "hm_get (pending (sys_state (w c))) i = Some xt" "node_ok (local_vote i w) Part c xt"
      "xt_local_vote xt = local_vote i w c" by (rule cluster_inv_node[OF assms(1) True])
  obtain y where y: "hm_get (pending (sys_state s)) i = Some y" "xt_raw_txs y = xt_raw_txs xt"
      "xt_local_vote y = xt_local_vote xt" "xt_peer_votes y = xt_peer_votes xt" "xt_decision y = xt_decision xt"
    using assms(2) xt(1) unfolding frame_def by blast
  have L: "(local_vote i w)(c := xt_local_vote y) = local_vote i w" using xt(3) y(3) by auto
  have n: "node_ok ((local_vote i w)(c := xt_local_vote y)) Part c y"
    unfolding L using xt(2) node_ok_fields[OF y(2-5)] by blast
  have "EPeerVote i c v \<in> set (sys_log s) \<Longrightarrow> xt_local_vote y = Some v" for v
    using assms True xt(3) y(3) unfolding frame_def cluster_inv_def by auto
  then show ?thesis by (rule cluster_inv_update[OF assms(1) True xt(1) y(1) n y(3)])
next
  case False
  then have L: "local_vote i (w(c := s)) d = local_vote i w d" "(w(c := s)) d = w d" if "d \<in> Part" for d
    using that by (auto simp: local_vote_def)
  show ?thesis unfolding cluster_inv_def
  proof (intro ballI conjI allI impI)
    fix d assume d: "d \<in> Part"
    obtain x where x: "hm_get (pending (sys_state (w d))) i = Some x" "node_ok (local_vote i w) Part d x"
      using assms(1) d unfolding cluster_inv_def by blast
    have "node_ok (local_vote i (w(c := s))) Part d x"
      by (rule node_ok_mono[OF x(2)]) (simp_all add: L d)
    then show "\<exists>xt. hm_get (pending (sys_state ((w(c := s)) d))) i = Some xt \<and>
        node_ok (local_vote i (w(c := s))) Part d xt"
      using x(1) L(2)[OF d] by simp
    fix v assume "EPeerVote i d v \<in> set (sys_log ((w(c := s)) d))"
    then show "local_vote i (w(c := s)) d = Some v" using assms(1) d L[OF d] unfolding cluster_inv_def by simp
  qed
qed

lemma cluster_inv_start:
  assumes "cluster_start Part i w"
  shows "cluster_inv Part i w"
  unfolding cluster_inv_def
proof (intro ballI conjI allI impI)
  fix c assume c: "c \<in> Part"
  obtain xt where xt: "hm_get (pending (sys_state (w c))) i = Some xt" "unvoted Part xt"
    using assms c unfolding cluster_start_def by blast
  have l: "local_vote i w c = None" using xt by (simp add: local_vote_def unvoted_def)
  have "settled c xt"
    unfolding settled_def
  proof (intro impI allI)
    fix C :: coordinator
    assume "chain_id C = c"
    have "0 < length (xt_raw_txs xt)" using xt(2) c by (cases "xt_raw_txs xt") (auto simp: unvoted_def)
    then show "xt_decision (snd (maybe_make_standalone_decision C xt)) = None"
      using xt(2) by (simp add: unvoted_def maybe_make_standalone_decision_def tally_def)
  qed
  then have "node_ok (local_vote i w) Part c xt"
    using xt(2) c l by (simp add: node_ok_def recorded_def justified_def unvoted_def hm_wf_def)
  then show "\<exists>xt. hm_get (pending (sys_state (w c))) i = Some xt \<and> node_ok (local_vote i w) Part c xt"
    using xt(1) by blast
  fix v assume "EPeerVote i c v \<in> set (sys_log (w c))"
  then show "local_vote i w c = Some v" using assms c unfolding cluster_start_def by blast
qed

interpretation cn: step_invariant "cluster_start Part i" "cluster_step Part i" "cluster_inv Part i" for Part i
proof
  show "cluster_inv Part i w" if "cluster_start Part i w" for w by (rule cluster_inv_start[OF that])
  show "cluster_inv Part i w'" if "cluster_inv Part i w" "cluster_step Part i w w'" for w w'
    using that(2,1) by cases (auto intro: inv_vote inv_deliver inv_other simp del: fun_upd_apply)
qed

section \<open>Activity that leaves the votes alone\<close>

definition same_votes :: "pending_xt \<Rightarrow> pending_xt \<Rightarrow> bool" where
  "same_votes x y \<longleftrightarrow> xt_raw_txs y = xt_raw_txs x \<and> xt_local_vote y = xt_local_vote x \<and>
     xt_peer_votes y = xt_peer_votes x \<and> xt_decision y = xt_decision x"

lemma same_votes_refl [simp]: "same_votes x x"
  by (simp add: same_votes_def)

lemma same_votes_fold:
  assumes "\<And>a p. same_votes (g p) (g (f a p))"
  shows "same_votes (g p) (g (fold f as p))"
  using assms by (induction as arbitrary: p) (auto simp: same_votes_def)

text \<open>An update of one XT that keeps votes and decision, with effects that are no votes.\<close>

lemma frame_update:
  assumes "pending (sys_state w') = pending (update_xt j f (sys_state w))" "\<And>xt. same_votes xt (f xt)"
    and "\<And>c v. EPeerVote i c v \<in> set (sys_log w') \<Longrightarrow> EPeerVote i c v \<in> set (sys_log w)"
  shows "frame i w w'"
  using assms by (auto simp: frame_def update_xt_pending same_votes_def)

lemma frame_refl: "sys_state w' = sys_state w \<Longrightarrow> sys_log w' = sys_log w \<Longrightarrow> frame i w w'"
  by (simp add: frame_def)

text \<open>The pipeline of any XT, up to its vote.\<close>

lemma frame_lock: "frame i w (w\<lparr>sys_state := lock_chain C j (sys_state w)\<rparr>)"
  by (rule frame_update[where j = j and f = "\<lambda>xt. xt\<lparr>xt_locked_chains := insert (chain_id C) (xt_locked_chains xt)\<rparr>"])
    (simp_all add: lock_chain_def same_votes_def)

lemma frame_record: "frame i w (w\<lparr>sys_state := snd (record_simulation_state C j r ov (sys_state w))\<rparr>)"
proof -
  let ?f = "\<lambda>xt. fold push_outbound (sim_outbound_messages r) (fold push_dependency (sim_dependencies r) xt)"
  have "same_votes xt (?f xt)" for xt
    using same_votes_fold[of "\<lambda>x. x" push_dependency xt "sim_dependencies r"]
      same_votes_fold[of "\<lambda>x. x" push_outbound "fold push_dependency (sim_dependencies r) xt" "sim_outbound_messages r"]
    by (simp add: same_votes_def push_dependency_def push_outbound_def Let_def)
  moreover have "pending (snd (record_simulation_state C j r ov (sys_state w))) = pending (update_xt j ?f (sys_state w))"
    by (auto simp: record_simulation_state_def Let_def update_xt_def hm_contains_iff split: option.split)
  ultimately show ?thesis by (intro frame_update) simp_all
qed

lemma frame_fulfill: "frame i w (w\<lparr>sys_state := snd (fulfill_dependencies_from_mailbox j deps (sys_state w))\<rparr>)"
proof (rule frame_update[where j = j])
  show "same_votes xt (snd (fold fulfill_one deps (0, xt)))" for xt
    using same_votes_fold[of snd fulfill_one "(0, xt)" deps]
    by (simp add: same_votes_def fulfill_one_def Let_def split: prod.split option.split)
qed (simp_all add: fulfill_section_eq)

lemma send_all_votes:
  "EPeerVote i c v \<in> set (sys_log (snd (send_all sender ms w))) \<longleftrightarrow> EPeerVote i c v \<in> set (sys_log w)"
  by (induction ms arbitrary: w) (simp_all add: Let_def emit_def split: sum.split)

lemma frame_dispatch: "frame i w (snd (dispatch_outbound_mailbox C j ms w))"
proof (cases "ms = [] \<or> mailbox_sender C = None")
  case True
  then show ?thesis by (auto simp: dispatch_outbound_mailbox_def frame_refl)
next
  case False
  show ?thesis
  proof (rule frame_update[where j = j])
    show "same_votes xt (snd (fold queue_outbound ms ([], xt)))" for xt
      using same_votes_fold[of snd queue_outbound "([], xt)" ms]
      by (simp add: same_votes_def queue_outbound_def Let_def split: prod.split)
    show "EPeerVote i c v \<in> set (sys_log w)"
      if "EPeerVote i c v \<in> set (sys_log (snd (dispatch_outbound_mailbox C j ms w)))" for c v
      using that by (auto simp: dispatch_outbound_mailbox_def send_all_votes split: option.splits prod.splits if_splits)
  qed (use False in \<open>auto simp: dispatch_state\<close>)
qed

text \<open>Mailbox messages for any XT may arrive between the votes.\<close>

lemma frame_mailbox: "frame i w (snd (handle_mailbox decode A body w))"
proof (cases "decode body")
  case (Inr msg)
  obtain r q where q: "(if has_mailbox_queue (app_coordinator A) then queue_record msg (sys_queue w)
      else (Inr (), sys_queue w)) = (r, q)" by force
  have "frame i w (emit ENotifyMailbox (w\<lparr>sys_queue := q, sys_state := mailbox_section msg (sys_state w)\<rparr>))"
  proof (cases "hm_get (mailbox_index (sys_state w)) (msg_instance_id msg)")
    case None
    then show ?thesis by (auto simp: frame_def mailbox_section_def emit_def)
  next
    case (Some j)
    show ?thesis
      by (rule frame_update[where j = j and f = "\<lambda>xt. xt\<lparr>xt_pending_mailbox := xt_pending_mailbox xt @ [msg]\<rparr>"])
        (auto simp: mailbox_section_def Some emit_def same_votes_def)
  qed
  then show ?thesis using Inr q
    by (cases r) (auto simp: handle_mailbox_def answer_ok_snd handle_mailbox_message_def frame_refl)
qed (simp add: frame_refl handle_mailbox_def)

section \<open>Properties\<close>

text \<open>C1: atomic commitment of a cluster.  From a state in which the XT is registered for the same chains at
  every participating sidecar and nobody has voted, let the sidecars vote, exchange their votes in any
  order, with losses and duplicates, and do anything else that leaves the votes alone.  Then two
  sidecars that have decided have decided the same; a commit means that every participating chain voted
  to commit, an abort that some participating chain voted to abort.\<close>

theorem network_agreement:
  assumes "reach (cluster_start Part i) (cluster_step Part i) w"
    and "c \<in> Part" "d \<in> Part" "decided i w c = Some d1" "decided i w d = Some d2"
  shows "d1 = d2 \<and> (if d1 then \<forall>e\<in>Part. local_vote i w e = Some True else \<exists>e\<in>Part. local_vote i w e = Some False)"
proof -
  have I: "cluster_inv Part i w" by (rule cn.reach_inv[OF assms(1)])
  have J: "if v then \<forall>e\<in>Part. local_vote i w e = Some True else \<exists>e\<in>Part. local_vote i w e = Some False"
    if m: "e \<in> Part" "decided i w e = Some v" for e v
  proof -
    obtain xt where "hm_get (pending (sys_state (w e))) i = Some xt" "node_ok (local_vote i w) Part e xt"
      by (rule cluster_inv_node[OF I m(1)])
    then show ?thesis using m(2) by (cases v) (auto simp: decided_def node_ok_def justified_def)
  qed
  show ?thesis using J[OF assms(2,4)] J[OF assms(3,5)] by (cases d1; cases d2) auto
qed

definition demo_voted :: "bool \<Rightarrow> bool \<Rightarrow> cluster" where
  "demo_voted u v = (\<lambda>_. demo_sys demo_xt)
     (1 := snd (send_vote (app_coordinator demo_app) ''xt-1-1'' u (demo_sys demo_xt)),
      2 := snd (send_vote (app_coordinator demo_peer) ''xt-1-1'' v (demo_sys demo_xt)))"

definition demo_exchanged :: "bool \<Rightarrow> bool \<Rightarrow> cluster" where
  "demo_exchanged u v = (demo_voted u v)
     (1 := snd (handle_peer_vote_request demo_app
              \<lparr>vr_instance_id = ''xt-1-1'', vr_chain_id = 2, vr_vote = v\<rparr> (demo_voted u v 1)),
      2 := snd (handle_peer_vote_request demo_peer
              \<lparr>vr_instance_id = ''xt-1-1'', vr_chain_id = 1, vr_vote = u\<rparr> (demo_voted u v 2)))"

lemma demo_cluster_start: "cluster_start {1, 2} ''xt-1-1'' (\<lambda>_. demo_sys demo_xt)"
  by (auto simp: cluster_start_def unvoted_def demo_sys_def demo_xt_def pending_xt_new_def hm_simps sys_new_def
      split: if_splits)

lemma demo_standalone: "standalone_at 1 demo_app" "standalone_at 2 demo_peer"
  by (code_simp, code_simp)

lemma demo_sent:
  "EPeerVote ''xt-1-1'' 1 True \<in> set (sys_log (demo_voted True True 1))"
  "EPeerVote ''xt-1-1'' 2 True \<in> set (sys_log (demo_voted True True 2))"
  by (code_simp, code_simp)

lemma demo_cluster_run:
  "reach (cluster_start {1, 2} ''xt-1-1'') (cluster_step {1, 2} ''xt-1-1'') (demo_exchanged True True)"
proof -
  let ?P = "{1, 2} :: u64 set" and ?i = "''xt-1-1''"
  let ?w0 = "\<lambda>_ :: u64. demo_sys demo_xt"
  let ?w1 = "?w0(1 := snd (send_vote (app_coordinator demo_app) ?i True (?w0 1)))"
  let ?w2 = "demo_voted True True"
  let ?w3 = "?w2(1 := snd (handle_peer_vote_request demo_app
              \<lparr>vr_instance_id = ?i, vr_chain_id = 2, vr_vote = True\<rparr> (?w2 1)))"
  have s1: "cluster_step ?P ?i ?w0 ?w1" by (rule cluster_step.vote) (simp_all add: demo_standalone)
  have s2: "cluster_step ?P ?i ?w1 ?w2"
    using cluster_step.vote[of 2 ?P demo_peer ?i ?w1 True] demo_standalone by (simp add: demo_voted_def)
  have s3: "cluster_step ?P ?i ?w2 ?w3"
    by (rule cluster_step.deliver) (simp_all add: demo_standalone demo_sent)
  have s4: "cluster_step ?P ?i ?w3 (demo_exchanged True True)"
    using cluster_step.deliver[of 1 ?P 2 demo_peer ?i True ?w3] demo_standalone demo_sent
    by (simp add: demo_exchanged_def handle_peer_vote_request_def answer_ok_snd peer_vote_peer_votes)
  note step = reach_step[where init = "cluster_start ?P ?i" and step = "cluster_step ?P ?i"]
  have "reach (cluster_start ?P ?i) (cluster_step ?P ?i) ?w0" by (rule reach_init, rule demo_cluster_start)
  from step[OF step[OF step[OF step[OF this s1] s2] s3] s4] show ?thesis .
qed

lemma demo_cluster_decided:
  "decided ''xt-1-1'' (demo_exchanged True True) 1 = Some True"
  "decided ''xt-1-1'' (demo_exchanged True True) 2 = Some True"
  by (code_simp, code_simp)

theorem network_agreement_witness:
  "local_vote ''xt-1-1'' (demo_exchanged True True) 1 = Some True \<and>
   local_vote ''xt-1-1'' (demo_exchanged True True) 2 = Some True"
  using network_agreement[OF demo_cluster_run _ _ demo_cluster_decided] by simp

text \<open>C2: no decision is missed.  In a reachable state of the cluster, a sidecar that has voted and has the
  votes of all the other participating chains has decided, to commit exactly when all of them voted to
  commit; and a sidecar that has seen one abort vote has decided to abort without waiting for the rest.\<close>

theorem network_decides:
  assumes "reach (cluster_start Part i) (cluster_step Part i) w" "c \<in> Part"
    and "hm_get (pending (sys_state (w c))) i = Some xt"
  shows "(xt_local_vote xt \<noteq> None \<and> (\<forall>e\<in>Part - {c}. hm_get (xt_peer_votes xt) e \<noteq> None) \<longrightarrow>
           xt_decision xt = Some (\<forall>e\<in>Part. local_vote i w e = Some True)) \<and>
         (xt_local_vote xt = Some False \<or> (\<exists>e. e \<noteq> c \<and> hm_get (xt_peer_votes xt) e = Some False) \<longrightarrow>
           xt_decision xt = Some False)"
proof -
  have I: "cluster_inv Part i w" by (rule cn.reach_inv[OF assms(1)])
  have n: "node_ok (local_vote i w) Part c xt" by (rule cluster_inv_node[OF I assms(2)]) (simp add: assms(3))
  then have r: "recorded (local_vote i w) Part c xt" and j: "justified (local_vote i w) Part xt"
    and s: "settled c xt" by (simp_all add: node_ok_def)
  define C where "C = demo_coordinator\<lparr>chain_id := c\<rparr>"
  have C: "chain_id C = c" by (simp add: C_def)
  have h: "hm_wf (xt_raw_txs xt)" "hm_contains (xt_raw_txs xt) (chain_id C)" "hm_wf (xt_peer_votes xt)"
      "dom (hm_get (xt_peer_votes xt)) \<subseteq> dom (hm_get (xt_raw_txs xt))"
    using r C by (auto simp: recorded_def hm_contains_iff)
  have und: "\<not> abort_vote C xt \<and> \<not> (xt_local_vote xt = Some True \<and>
      (\<forall>e. hm_contains (xt_raw_txs xt) e \<and> e \<noteq> chain_id C \<longrightarrow> hm_get (xt_peer_votes xt) e = Some True))"
    if "xt_decision xt = None"
    using standalone_commit_unanimous[OF h that] s that C unfolding settled_def by simp
  have all: "xt_decision xt = Some (\<forall>e\<in>Part. local_vote i w e = Some True)"
    if v: "xt_local_vote xt \<noteq> None" "\<forall>e\<in>Part - {c}. hm_get (xt_peer_votes xt) e \<noteq> None"
  proof (cases "xt_decision xt")
    case None
    have "hm_get (xt_peer_votes xt) e = Some True" if "hm_contains (xt_raw_txs xt) e" "e \<noteq> chain_id C" for e
    proof -
      have "e \<in> Part - {c}" using that r C by (auto simp: recorded_def hm_contains_iff)
      then obtain b where "hm_get (xt_peer_votes xt) e = Some b" using v(2) by blast
      then show ?thesis using und[OF None] that by (cases b) (auto simp: abort_vote_def)
    qed
    moreover have "xt_local_vote xt = Some True"
      using und[OF None] v(1) by (cases "xt_local_vote xt") (auto simp: abort_vote_def)
    ultimately show ?thesis using und[OF None] by blast
  next
    case (Some b)
    then have "b \<longleftrightarrow> (\<forall>e\<in>Part. local_vote i w e = Some True)" using j unfolding justified_def by (cases b) fastforce+
    then show ?thesis using Some by blast
  qed
  have ab: "xt_decision xt = Some False" if "abort_vote C xt"
  proof -
    have p: "e \<in> Part \<and> local_vote i w e = Some v" if "hm_get (xt_peer_votes xt) e = Some v" for e v
      using r that unfolding recorded_def by blast
    have l: "c \<in> Part" "xt_local_vote xt = local_vote i w c" using r unfolding recorded_def by blast+
    have "\<exists>e\<in>Part. local_vote i w e = Some False"
      using that[unfolded abort_vote_def] p l by (elim disjE exE conjE) auto
    then obtain e where e: "e \<in> Part" "local_vote i w e = Some False" by blast
    show ?thesis
    proof (cases "xt_decision xt")
      case (Some b)
      then show ?thesis using e j by (cases b) (auto simp: justified_def)
    qed (use und that in blast)
  qed
  show ?thesis using all ab C unfolding abort_vote_def by blast
qed

theorem network_decides_witness:
  "decided ''xt-1-1'' (demo_exchanged True True) 1 =
     Some (local_vote ''xt-1-1'' (demo_exchanged True True) 1 = Some True \<and>
           local_vote ''xt-1-1'' (demo_exchanged True True) 2 = Some True)"
proof -
  define xt where "xt = the (hm_get (pending (sys_state (demo_exchanged True True 1))) ''xt-1-1'')"
  have e: "hm_get (pending (sys_state (demo_exchanged True True 1))) ''xt-1-1'' = Some xt"
    using demo_cluster_decided(1) by (auto simp: xt_def decided_def split: bind_splits)
  have "xt_local_vote xt = Some True" "hm_get (xt_peer_votes xt) 2 = Some True"
    unfolding xt_def by (code_simp, code_simp)
  then have "xt_decision xt = Some (\<forall>e\<in>{1, 2}. local_vote ''xt-1-1'' (demo_exchanged True True) e = Some True)"
    using network_decides[OF demo_cluster_run _ e] by simp
  then show ?thesis using e by (simp add: decided_def)
qed

end
