(* ===== verification/Spec2Isabelle.thy ===== *)
theory Spec2Isabelle
  imports Wiring Sidecar_Network
begin

text \<open>
  The sidecar runs beside a rollup node and coordinates cross-chain transactions (XTs) with the
  sidecars of other rollups.  An XT arrives over HTTP, from a peer or from the shared publisher; the
  coordinator registers it, submits it to the local builder in locked form and simulates its local
  transactions against the node.  A simulation may read mailbox messages of other chains
  (dependencies) and write messages for them; the sidecars exchange these messages, simulate again
  with the messages in the state, and vote.  The publisher decides, or, without a publisher, the
  sidecars decide from each other's votes.  On a commit the builder gets the release of the XT with
  signed \<open>putInbox\<close> transactions whose nonces the sidecar manages; otherwise it gets an abort.

  \<^bold>\<open>The theories.\<close>  Paths are below \<open>src/crates\<close>; a definition has the name of the function or type it
  translates where that name is free.

  \<^item> \<open>Prelude\<close>: machine words, hash maps as association lists with distinct keys (locale
    \<open>hash_map\<close>), byte encodings, and the rule for invariants of step relations (locale \<open>step_invariant\<close>).
  \<^item> \<open>Primitives\<close>: \<open>primitives\<close>, \<open>primitives-traits/src/error.rs\<close>.  The record \<open>externals\<close> holds hashing,
    hexadecimal text and the rendering of identifiers from other crates.
  \<^item> \<open>Publisher_Period\<close>: \<open>model/publisher_period.rs\<close>; admission by period and sequence number
    (locale \<open>admission_gate\<close>).
  \<^item> \<open>Nonce_Manager\<close>: \<open>nonce_manager.rs\<close> (locale \<open>nonce_lane\<close>, step relation \<open>lane_step\<close>).
  \<^item> \<open>Mailbox_Matching\<close>, \<open>Trace_Parser\<close>, \<open>Overrides\<close>: the crate \<open>mailbox\<close>, that is keys, matching, session
    ids and the queue (locales \<open>byte_codec\<close>, \<open>message_queue\<close>); the parser of call traces; the storage overrides
    that make a message readable.
  \<^item> \<open>Framing\<close>, \<open>Transport_Client\<close>: the crate \<open>net/transport\<close>, that is the codec and the QUIC server (locale
    \<open>frame_codec\<close>) and the QUIC client (locales \<open>client_actions\<close>, \<open>client_task\<close>, \<open>client_sender\<close>).
  \<^item> \<open>Permissions\<close>, \<open>Policy_Stream\<close>: the crates \<open>permissions\<close> and \<open>net/ws\<close>, that is policy snapshots, the
    engine, and the stream that feeds it (locale \<open>liveness_handler\<close>).
  \<^item> \<open>Coordinator_State\<close>, \<open>Builder_Control\<close>, \<open>Voting\<close>, \<open>Registration\<close>, \<open>Lifecycle\<close>, \<open>Simulation_Pipeline\<close>: the
    coordinator, \<open>coordinator/coordinator/src\<close>.  The state behind the lock is the record
    \<open>coordinator_state\<close>; the record \<open>sys\<close> adds the nonce lane, the mailbox queue and the log of effects
    (builder calls, votes, messages, answers to waiting callers) in the order in which they are issued.  A
    handler is split as the code splits it: a function \<open>..._section\<close> for what happens under the lock, and
    the handler, which runs the sections and the calls between them.
  \<^item> \<open>Interleaving\<close>: all orders in which the sections, builder commands and effects of concurrent tasks
    can run, as the relation \<open>sidecar_step\<close>.
  \<^item> \<open>Rpc_Simulation\<close>: the crate \<open>simulation\<close>.
  \<^item> \<open>Peers\<close>, \<open>Server\<close>: \<open>net/peer\<close>, \<open>config/src/peer.rs\<close>, \<open>coordinator/server\<close> and \<open>net/publisher\<close>; the calls
    between sidecars, the HTTP routes, the dispatch of publisher messages.
  \<^item> \<open>Adapters\<close>, \<open>Wiring\<close>: the builder client, the signer of \<open>putInbox\<close> transactions, the settings, the
    coordinator builder, and the assembly and receive task of the binary.
  \<^item> \<open>Sidecar_Network\<close>: several sidecars that decide one XT without the publisher.
  \<^item> This theory: the path from the settings to a commit vote.

  \<^bold>\<open>What is shown.\<close>

  \<^item> Atomic commitment: a cluster of sidecars agrees, commits only unanimously, and does not miss a
    decision for which it has the votes (\<open>Sidecar_Network\<close>); a submission and its forwarded copy are the same
    XT (\<open>Server\<close>); decisions are final and local votes are cast once (\<open>Voting\<close>).
  \<^item> The path to a vote: a commit vote needs verification, permission and a successful simulation of every
    local transaction (\<open>Simulation_Pipeline\<close>), which for a sidecar assembled from its settings means that the
    node returned clean traces (below); the parser, the overrides and the state differences mean what the
    contract and the node read (\<open>Trace_Parser\<close>, \<open>Overrides\<close>, \<open>Rpc_Simulation\<close>).
  \<^item> Messages: a message that arrives early is delivered, each dependency consumes one message, each key is
    sent once (\<open>Registration\<close>, \<open>Simulation_Pipeline\<close>).
  \<^item> Nonces: ranges are exclusive, the lane has no gap, a failed release frees its range (\<open>Nonce_Manager\<close>,
    \<open>Builder_Control\<close>).
  \<^item> State: the invariant \<open>coord_inv\<close> (distinct keys, indexes that agree, bounded buffers, at most 100
    undecided XTs) holds at every point of every interleaving and after every sequence of requests and
    publisher messages (\<open>Interleaving\<close>, \<open>Server\<close>).
  \<^item> Transport and policy: frames round-trip, sending and reconnecting are bounded, receiving delivers, a
    gap in the policy stream denies (\<open>Framing\<close>, \<open>Transport_Client\<close>, \<open>Policy_Stream\<close>).
  \<^item> Where the code does not do what it means to, a theorem states what it does: votes of outsiders are
    counted, a builder failure loses a vote or stops a rollback, an oversized message stops the receive task,
    two statuses are never reported, instances of one chain overlap, and an unparsable mailbox address
    blinds the simulator.

  \<^bold>\<open>Bounds and inputs.\<close>  Loops over data recurse on the data; \<open>serve_stream\<close>, \<open>simulate_tx\<close> and \<open>parse_loop\<close> have
  termination measures (bytes left; events left, then messages held for the XT; nodes of the trace on the
  stack).  The depth limit of the parser is the constant of the code.  What a task meets while it waits is
  an input: \<open>wait_for_dependencies\<close> takes the list of wake-ups, each with what the other tasks did, and the
  end of the list is the deadline, so every run of the code is a list.  \<open>recv\<close> may wait forever and is a
  partial function whose undefined value is waiting; that it returns when a frame arrives is a theorem.
  \<open>receive_loop\<close> is followed for any given number of messages, \<open>cleanup_loop\<close> for any list of ticks.  Times are
  natural numbers of seconds read from the field \<open>clock\<close>, which changes between steps.  Sequence numbers, chain
  ids and nonces are 64-bit words.

  \<^bold>\<open>Parameters.\<close>  Hash functions, ABI, JSON and protobuf codecs, the signer, the HTTP, RPC, QUIC and
  websocket libraries and the node are arguments; what is assumed of them stands in the theorems (for example
  \<open>hex_spec\<close>), and each such theorem is applied to a concrete instance.

  \<^bold>\<open>Not modelled.\<close>  \<open>net/transport/src/tls.rs\<close> and \<open>socket.rs\<close> set up library objects.  \<open>metrics\<close>, \<open>tracing\<close> and
  \<open>handlers/metrics.rs\<close> count and log, and nothing reads the counts back.  \<open>start\<close> and \<open>stop\<close> of the coordinator and
  the rest of \<open>main\<close> spawn and await tasks, bind the listener and wait for signals; the tasks themselves are
  modelled.  The trait files have no bodies.  The derived serialisation of the request types is not under
  \<open>src\<close>.  The text of log messages and the tests are left out.
\<close>

section \<open>From settings to votes\<close>

text \<open>A node call that the simulator made: the call object and overrides it posted, and the trace it got.\<close>

definition node_traced :: "platform \<Rightarrow> string \<Rightarrow> bytes \<Rightarrow> transaction_call \<Rightarrow> state_override \<Rightarrow> json \<Rightarrow> bool" where
  "node_traced P url tx call ov trace \<longleftrightarrow>
    decode_tx (pl_rpc_backend P) tx = Inr call \<and>
    post_call_trace (pl_rpc_backend P) url call (if ov = [] then None else Some ov) =
      Inr \<lparr>resp_result = Some trace, resp_error = None\<rparr>"

lemma trace_call_posted:
  assumes "trace_call X S post chain call ov = Inr trace" "simulator_rpc_url X S chain = Inr url"
  shows "post url call (if ov = [] then None else Some ov) = Inr \<lparr>resp_result = Some trace, resp_error = None\<rparr>"
proof -
  obtain resp where r: "post url call (if ov = [] then None else Some ov) = Inr resp"
      "resp_error resp = None" "resp_result resp = Some trace"
    using assms by (auto simp: trace_call_def Let_def split: sum.splits option.splits if_splits)
  have "resp = \<lparr>resp_result = Some trace, resp_error = None\<rparr>" using r(2,3) by (cases resp) simp
  then show ?thesis using r(1) by simp
qed

lemma wired_simulator:
  assumes "build_coordinator P args engine = Inr (C, q)" "builder_rpc_url (arg_chain args) \<noteq> []"
    and "ca_mailbox_address (arg_chain args) \<noteq> []"
    and "lib_parse_address (pl_put_inbox P) (ca_mailbox_address (arg_chain args)) = Inr mb"
  defines "S \<equiv> with_mailbox_address mb (rpc_simulator_new (pl_rpc_backend P)
      [\<lparr>rpc_chain_id = ca_id (arg_chain args), rpc_url = builder_rpc_url (arg_chain args)\<rparr>])"
  shows "simulator C = Some (rpc_simulate (ext (pl_template P)) (pl_mailbox_abi P) S)"
    and "sim_mailbox_address S = Some mb" "sim_backend S = pl_rpc_backend P"
    and "simulator_rpc_url X S (ca_id (arg_chain args)) = Inr (builder_rpc_url (arg_chain args))"
proof -
  note f = build_coordinator_fields[OF assms(1)]
  show "simulator C = Some (rpc_simulate (ext (pl_template P)) (pl_mailbox_abi P) S)"
    using f(2) assms(2-4) by (simp add: wire_simulator_def Let_def S_def)
qed (simp_all add: S_def with_mailbox_address_def rpc_simulator_new_def simulator_rpc_url_def)

lemma simulated_trace:
  assumes "rpc_simulate X A S chain tx ov deps = Inr r" "sim_success r" "sim_mailbox_address S = Some mb"
    and "simulator_rpc_url X S chain = Inr url" "sim_backend S = pl_rpc_backend P"
  shows "\<exists>call trace. node_traced P url tx call (mailbox_view X chain mb deps ov) trace \<and> clean_trace X A mb chain trace"
proof -
  have s: "simulate_with_mailbox X A S chain tx ov deps = Inr r"
    using assms(1) by (simp add: rpc_simulate_def split: sum.splits)
  obtain call trace pre where t: "decode_tx (sim_backend S) tx = Inr call"
    "trace_call X S (post_call_trace (sim_backend S)) chain call (mailbox_view X chain mb deps ov) = Inr trace"
    "r = result_from_traces X A S chain trace pre"
    by (rule simulate_with_mailbox_trace[OF s assms(3)])
  then show ?thesis
    using trace_call_posted[OF t(2) assms(4)] result_from_traces_spec(2)[OF assms(3)] assms(2,5)
    by (auto simp: node_traced_def)
qed

lemma simulates_traced:
  assumes "sim_mailbox_address S = Some mb" "simulator_rpc_url X S chain = Inr url" "sim_backend S = pl_rpc_backend P"
    and "simulates (rpc_simulate X A S) chain ov txs fds" "tx \<in> set txs"
  shows "\<exists>call ov deps trace. node_traced P url tx call (mailbox_view X chain mb deps ov) trace \<and>
    clean_trace X A mb chain trace"
  using assms(4,5)
proof (induction txs arbitrary: ov fds)
  case (Cons t txs)
  then obtain fd fds' where fds: "fds = fd # fds'" by (cases fds) auto
  then obtain r where r: "rpc_simulate X A S chain t ov fd = Inr r" "sim_success r"
      "simulates (rpc_simulate X A S) chain (merge_success r ov) txs fds'"
    using Cons.prems(1) by (auto split: sum.splits)
  show ?case
  proof (cases "tx = t")
    case True
    then show ?thesis using simulated_trace[OF r(1,2) assms(1-3)] by blast
  next
    case False
    then show ?thesis using Cons.IH[OF r(3)] Cons.prems(2) by simp
  qed
qed simp

section \<open>Properties\<close>

text \<open>C4: a commit vote is backed by the node.  On a sidecar that started with a builder endpoint and a
  mailbox address, whenever a pipeline run ends with a local vote to commit, this chain has transactions
  in the XT and the node at the configured endpoint returned, for each of them, a call trace that neither
  failed at the top nor contains a reverted mailbox read.\<close>

theorem commit_vote_traced:
  assumes "build_coordinator P args engine = Inr (C, q)" "builder_rpc_url (arg_chain args) \<noteq> []"
    and "ca_mailbox_address (arg_chain args) \<noteq> []"
    and "lib_parse_address (pl_put_inbox P) (ca_mailbox_address (arg_chain args)) = Inr mb"
    and "hm_get (pending (sys_state w)) i = Some xt" "xt_local_vote xt = None" "quiet i events"
    and "hm_get (pending (sys_state (process_xt C i events w))) i = Some xt'" "xt_local_vote xt' = Some True"
  shows "\<exists>txs. hm_get (xt_raw_txs xt) (ca_id (arg_chain args)) = Some txs \<and> txs \<noteq> [] \<and>
    (\<forall>tx\<in>set txs. \<exists>call ov trace. node_traced P (builder_rpc_url (arg_chain args)) tx call ov trace \<and>
       clean_trace (ext (pl_template P)) (pl_mailbox_abi P) mb (ca_id (arg_chain args)) trace)"
proof -
  note S = wired_simulator[OF assms(1-4)]
  have c: "chain_id C = ca_id (arg_chain args)" by (rule build_coordinator_fields(1)[OF assms(1)])
  have "vote_of i (process_xt C i events w) = Some (Some True)" using assms(8,9) by (simp add: vote_of_def)
  then obtain txs where t: "hm_get (xt_raw_txs xt) (chain_id C) = Some txs" "txs \<noteq> []"
      "commit_justified C i txs (sys_state w)"
    using process_xt_outcome[OF assms(5-7), of C] by auto
  then obtain fds where "simulates (rpc_simulate (ext (pl_template P)) (pl_mailbox_abi P)
      (with_mailbox_address mb (rpc_simulator_new (pl_rpc_backend P)
        [\<lparr>rpc_chain_id = ca_id (arg_chain args), rpc_url = builder_rpc_url (arg_chain args)\<rparr>])))
      (ca_id (arg_chain args)) (initial_overrides C (sys_state w)) txs fds"
    using S(1) c by (auto simp: commit_justified_def)
  from simulates_traced[OF S(2,4,3) this] show ?thesis using t(1,2) c by metis
qed

definition quiet_args :: sidecar_args where
  "quiet_args = demo_args\<lparr>arg_publisher := \<lparr>pa_enabled = False, pa_addr = [], pa_reconnect_delay_secs = 5, pa_max_retries = 10\<rparr>\<rparr>"

definition live_platform :: platform where
  "live_platform = demo_platform\<lparr>pl_put_inbox := (pl_put_inbox demo_platform)\<lparr>lib_parse_address := \<lambda>s. Inr 5\<rparr>\<rparr>"

definition live_coordinator :: coordinator where
  "live_coordinator = fst (projr (build_coordinator live_platform quiet_args None))"

lemma live_builds: "\<exists>q. build_coordinator live_platform quiet_args None = Inr (live_coordinator, q)"
proof -
  have "trim ''http://v'' = ''http://v''" by code_simp
  then have "\<exists>C q. build_coordinator live_platform quiet_args None = Inr (C, q)"
    by (intro build_coordinator_ok) (simp_all add: quiet_args_def live_platform_def demo_args_def demo_platform_def
      validate_verification_config_def verification_settings_def)
  then show ?thesis by (auto simp: live_coordinator_def)
qed

theorem commit_vote_traced_witness:
  "\<exists>call ov trace. node_traced live_platform ''http://node'' [1] call ov trace \<and>
     clean_trace (ext (pl_template live_platform)) (pl_mailbox_abi live_platform) 5 1 trace"
proof -
  obtain q where b: "build_coordinator live_platform quiet_args None = Inr (live_coordinator, q)"
    using live_builds by blast
  let ?w = "process_xt live_coordinator ''xt-1-1'' [] (demo_sys demo_xt)"
  have v: "map_option xt_local_vote (hm_get (pending (sys_state ?w)) ''xt-1-1'') = Some (Some True)" by code_simp
  then obtain xt' where x: "hm_get (pending (sys_state ?w)) ''xt-1-1'' = Some xt'" "xt_local_vote xt' = Some True"
    by auto
  have d: "hm_get (pending (sys_state (demo_sys demo_xt))) ''xt-1-1'' = Some demo_xt" "xt_local_vote demo_xt = None"
    by (simp_all add: demo_sys_def demo_xt_def pending_xt_new_def)
  have u: "builder_rpc_url (arg_chain quiet_args) = ''http://node''" "ca_id (arg_chain quiet_args) = 1"
    by (simp_all add: quiet_args_def demo_args_def builder_rpc_url_def)
  have "\<exists>txs. hm_get (xt_raw_txs demo_xt) (ca_id (arg_chain quiet_args)) = Some txs \<and> txs \<noteq> [] \<and>
    (\<forall>tx\<in>set txs. \<exists>call ov trace. node_traced live_platform (builder_rpc_url (arg_chain quiet_args)) tx call ov trace \<and>
       clean_trace (ext (pl_template live_platform)) (pl_mailbox_abi live_platform) 5 (ca_id (arg_chain quiet_args)) trace)"
  proof (rule commit_vote_traced[OF b _ _ _ d _ x])
    show "builder_rpc_url (arg_chain quiet_args) \<noteq> []" by (simp add: u)
    show "ca_mailbox_address (arg_chain quiet_args) \<noteq> []" by (simp add: quiet_args_def demo_args_def)
    show "lib_parse_address (pl_put_inbox live_platform) (ca_mailbox_address (arg_chain quiet_args)) = Inr 5"
      by (simp add: live_platform_def)
    show "quiet ''xt-1-1'' []" by (simp add: quiet_def)
  qed
  then show ?thesis by (simp add: u demo_xt_def pending_xt_new_def)
qed

end
